theory Spec2Isabelle
  imports Complex_Main "HOL-Library.Multiset"
begin

section \<open>Floating-point values\<close>

text \<open>
  The program computes with IEEE-754 doubles (Python \<open>float\<close>, numpy \<open>float64\<close>).
  A value is \<open>nan\<close>, \<open>inf\<close>, \<open>-inf\<close> or a finite double, which is the real number it
  denotes; the sign of zero is not modelled. The operations come in two layers. The
  plain ones (\<open>fadd\<close>, \<open>fmul\<close>, ...) give the exact real result on finite operands: the
  means and the statistics of the reducer and of the aggregator are stated with them.
  The rounded ones (\<open>fl_add\<close>, \<open>fl_mul\<close>, ...) round that result to the nearest double,
  with underflow and overflow: the binding model, the concentration ladder and the
  seeding of the fit, whose results depend on the precision, are stated with them.
\<close>

datatype fval = Fin real | PInf | NInf | NaN

fun isnan :: "fval \<Rightarrow> bool" where
  "isnan NaN = True"
| "isnan _ = False"

fun isfinite :: "fval \<Rightarrow> bool" where
  "isfinite (Fin _) = True"
| "isfinite _ = False"

fun fneg :: "fval \<Rightarrow> fval" where
  "fneg (Fin a) = Fin (- a)"
| "fneg PInf = NInf"
| "fneg NInf = PInf"
| "fneg NaN = NaN"

fun fadd :: "fval \<Rightarrow> fval \<Rightarrow> fval" where
  "fadd (Fin a) (Fin b) = Fin (a + b)"
| "fadd NaN _ = NaN"
| "fadd _ NaN = NaN"
| "fadd PInf NInf = NaN"
| "fadd NInf PInf = NaN"
| "fadd PInf _ = PInf"
| "fadd NInf _ = NInf"
| "fadd _ PInf = PInf"
| "fadd _ NInf = NInf"

definition fsub :: "fval \<Rightarrow> fval \<Rightarrow> fval" where
  "fsub a b = fadd a (fneg b)"

text \<open>The sign of a value: \<open>1\<close>, \<open>-1\<close>, or \<open>0\<close> for zero (and for \<open>nan\<close>).\<close>

fun fsign :: "fval \<Rightarrow> int" where
  "fsign (Fin a) = (if 0 < a then 1 else if a < 0 then - 1 else 0)"
| "fsign PInf = 1"
| "fsign NInf = - 1"
| "fsign NaN = 0"

definition signed_inf :: "int \<Rightarrow> fval" where
  "signed_inf s = (if 0 < s then PInf else if s < 0 then NInf else NaN)"

fun fmul :: "fval \<Rightarrow> fval \<Rightarrow> fval" where
  "fmul (Fin a) (Fin b) = Fin (a * b)"
| "fmul NaN _ = NaN"
| "fmul _ NaN = NaN"
| "fmul a b = signed_inf (fsign a * fsign b)"

text \<open>
  Division of numpy scalars and arrays: a zero divisor gives \<open>inf\<close>, \<open>-inf\<close> or
  \<open>nan\<close> (with a warning), never an exception.
\<close>

fun fdiv :: "fval \<Rightarrow> fval \<Rightarrow> fval" where
  "fdiv (Fin a) (Fin b) = (if b = 0 then signed_inf (fsign (Fin a)) else Fin (a / b))"
| "fdiv NaN _ = NaN"
| "fdiv _ NaN = NaN"
| "fdiv (Fin a) _ = Fin 0"
| "fdiv a (Fin b) = (if b < 0 then fneg a else a)"
| "fdiv _ _ = NaN"

fun fsqrt :: "fval \<Rightarrow> fval" where
  "fsqrt (Fin a) = (if a < 0 then NaN else Fin (sqrt a))"
| "fsqrt PInf = PInf"
| "fsqrt NInf = NaN"
| "fsqrt NaN = NaN"

text \<open>Comparisons: every comparison with \<open>nan\<close> is false.\<close>

fun fle :: "fval \<Rightarrow> fval \<Rightarrow> bool" where
  "fle NaN _ = False"
| "fle _ NaN = False"
| "fle (Fin a) (Fin b) = (a \<le> b)"
| "fle NInf _ = True"
| "fle _ PInf = True"
| "fle _ _ = False"

definition flt :: "fval \<Rightarrow> fval \<Rightarrow> bool" where
  "flt a b = (fle a b \<and> a \<noteq> b)"

definition feq :: "fval \<Rightarrow> fval \<Rightarrow> bool" where
  "feq a b = (a \<noteq> NaN \<and> a = b)"

definition fsum :: "fval list \<Rightarrow> fval" where
  "fsum xs = foldl fadd (Fin 0) xs"

subsection \<open>Rounding to the nearest double\<close>

text \<open>Rounding a real to an integer, ties to the even neighbour.\<close>

definition round_half_even :: "real \<Rightarrow> int" where
  "round_half_even x =
     (let f = \<lfloor>x\<rfloor>; r = x - of_int f
      in if r < 1 / 2 then f else if 1 / 2 < r then f + 1 else if even f then f else f + 1)"

text \<open>
  A finite double is an integer multiple of a power of two, the quantum of its binade:
  it has 53 significant bits when its exponent is at least -1022 (normal values), and
  is a multiple of \<open>2^-1074\<close> below (subnormal values). The binade of a real is the
  exponent of the greatest power of two that is at most its magnitude, and at least
  -1022.
\<close>

definition binade :: "real \<Rightarrow> int" where
  "binade x = max \<lfloor>log 2 \<bar>x\<bar>\<rfloor> (- 1022)"

definition quantum :: "real \<Rightarrow> real" where
  "quantum x = 2 powr (real_of_int (binade x) - 52)"

text \<open>
  The nearest multiple of the quantum, ties to the even multiple (the rounding mode of
  Python and numpy), before the test for overflow.
\<close>

definition nearest_double :: "real \<Rightarrow> real" where
  "nearest_double x =
     (if x = 0 then 0 else real_of_int (round_half_even (x / quantum x)) * quantum x)"

text \<open>
  The result of an operation whose exact value is \<open>x\<close>: the nearest double, or an
  infinity when that has a magnitude of \<open>2^1024\<close> or more. Values of magnitude up to
  \<open>2^-1075\<close> underflow to zero.
\<close>

definition overflow_bound :: real where
  "overflow_bound = 2 ^ 1024"

definition round_to_double :: "real \<Rightarrow> fval" where
  "round_to_double x =
     (let y = nearest_double x
      in if overflow_bound \<le> y then PInf else if y \<le> - overflow_bound then NInf else Fin y)"

text \<open>The reals that are doubles: those that rounding keeps.\<close>

definition is_double :: "real \<Rightarrow> bool" where
  "is_double x = (round_to_double x = Fin x)"

text \<open>
  The operations of numpy and of Python on doubles: the exact result, rounded. The
  special values are those of the plain operations.
\<close>

definition rounded :: "fval \<Rightarrow> fval" where
  "rounded v = (case v of Fin x \<Rightarrow> round_to_double x | _ \<Rightarrow> v)"

definition fl_add :: "fval \<Rightarrow> fval \<Rightarrow> fval" where
  "fl_add a b = rounded (fadd a b)"

definition fl_sub :: "fval \<Rightarrow> fval \<Rightarrow> fval" where
  "fl_sub a b = rounded (fsub a b)"

definition fl_mul :: "fval \<Rightarrow> fval \<Rightarrow> fval" where
  "fl_mul a b = rounded (fmul a b)"

definition fl_div :: "fval \<Rightarrow> fval \<Rightarrow> fval" where
  "fl_div a b = rounded (fdiv a b)"

definition fl_sqrt :: "fval \<Rightarrow> fval" where
  "fl_sqrt a = rounded (fsqrt a)"

section \<open>Errors\<close>

text \<open>
  The Python exceptions the modelled code can raise, each with its message where the
  program prints it.
\<close>

datatype py_error =
    ZeroDivisionError
  | OverflowError string
  | ValueError string
  | RuntimeError string
  | IndexError string
  | OtherError string


section \<open>Concentration ladder\<close>





section \<open>Trace reducer\<close>

text \<open>
  One row of the data frame built from a file's \<open>Times\<close>, \<open>Ratios\<close> and
  \<open>Capillary_Positions\<close> columns (three columns of one frame, hence of one length).
  Rows whose capillary position is not numeric are dropped when the file is loaded, so
  the position is a real; time and ratio are whatever the file holds.
\<close>

record row =
  Time :: fval
  Ratio :: fval
  Capillary_Position :: real

record windows =
  f0_start :: fval
  f0_end :: fval
  f1_start :: fval
  f1_end :: fval

text \<open>
  \<^verbatim>\<open>cap_df[(cap_df['Time [s]'] >= start) & (cap_df['Time [s]'] <= end)]['Ratios']\<close>
\<close>

definition window_values :: "row list \<Rightarrow> fval \<Rightarrow> fval \<Rightarrow> fval list" where
  "window_values cap_df t_start t_end =
     map Ratio (filter (\<lambda>r. fle t_start (Time r) \<and> fle (Time r) t_end) cap_df)"

text \<open>
  pandas \<open>Series.mean()\<close>: \<open>nan\<close> entries are skipped (\<open>skipna=True\<close>), the mean
  of what is left is its sum over its count, and \<open>nan\<close> when nothing is left.
\<close>

definition series_mean :: "fval list \<Rightarrow> fval" where
  "series_mean xs =
     (let vs = filter (\<lambda>x. \<not> isnan x) xs
      in if vs = [] then NaN else fdiv (fsum vs) (Fin (real (length vs))))"

text \<open>
  \<^verbatim>\<open>Fnorm = F1 / F0 if F0 not in [np.nan, 0] else np.nan\<close>.
  Membership in a list is identity or equality; whether a \<open>nan\<close> mean is the object
  \<open>np.nan\<close> or not makes no difference, since \<open>F1 / nan\<close> is \<open>nan\<close> too.
\<close>

definition fnorm_value :: "fval \<Rightarrow> fval \<Rightarrow> fval" where
  "fnorm_value F0 F1 = (if \<not> (isnan F0 \<or> feq F0 (Fin 0)) then fdiv F1 F0 else NaN)"

text \<open>
  The body of the loop over \<open>unique_caps\<close> (lines 563 to 581): the point appended for
  the capillary at position \<open>conc_idx\<close> of the sorted distinct positions, or none.
\<close>

definition reduce_cap ::
  "windows \<Rightarrow> real list \<Rightarrow> row list \<Rightarrow> nat \<Rightarrow> real \<Rightarrow> (real \<times> fval) option" where
  "reduce_cap w expected temp_df conc_idx cap_pos =
     (let cap_df = filter (\<lambda>r. Capillary_Position r = cap_pos) temp_df
      in if conc_idx \<ge> length expected then None
         else
           let current_concentration = expected ! conc_idx;
               F0 = series_mean (window_values cap_df (f0_start w) (f0_end w));
               F1 = series_mean (window_values cap_df (f1_start w) (f1_end w));
               Fnorm = fnorm_value F0 F1
           in if \<not> isnan Fnorm \<and> current_concentration > 0
              then Some (current_concentration, Fnorm) else None)"

definition unique_caps :: "row list \<Rightarrow> real list" where
  "unique_caps temp_df = sort (remdups (map Capillary_Position temp_df))"

definition reduce_points :: "windows \<Rightarrow> real list \<Rightarrow> row list \<Rightarrow> (real \<times> fval) list" where
  "reduce_points w expected temp_df =
     List.map_filter (\<lambda>(i, cap). reduce_cap w expected temp_df i cap)
       (enumerate 0 (unique_caps temp_df))"

text \<open>
  What is stored for a file: its raw rows and the reduced points, as parallel arrays,
  with the set of excluded point indices.
\<close>

record file_data =
  rows :: "row list"
  concentrations :: "real list"
  fnorms :: "fval list"
  log_concs :: "real list"
  excluded_indices :: "nat set"

definition reduce_file :: "windows \<Rightarrow> real list \<Rightarrow> file_data \<Rightarrow> file_data" where
  "reduce_file w expected data =
     (let points = reduce_points w expected (rows data)
      in data\<lparr>concentrations := map fst points,
              fnorms := map snd points,
              log_concs := map (\<lambda>(c, f). log 10 c) points\<rparr>)"

record ligand =
  max_conc :: real
  df :: real

text \<open>
  The state of the analyser that the modelled functions read and write. Dictionaries
  that are iterated are association lists in insertion order; \<open>win\<close> holds the four
  window attributes and \<open>self_c_target\<close> is the attribute \<open>c_target\<close>.
\<close>

record analyzer =
  ligand_info :: "string \<rightharpoonup> ligand"
  all_data_points :: "(string \<times> (string \<times> file_data) list) list"
  replicate_selection_vars :: "string \<rightharpoonup> (string \<rightharpoonup> bool)"
  win :: windows
  self_c_target :: real
  model_choice :: string
  display_unit :: string

text \<open>The attributes as \<open>__init__\<close> sets them (lines 64 to 85).\<close>

definition initial_analyzer :: analyzer where
  "initial_analyzer =
     \<lparr>ligand_info = Map.empty, all_data_points = [], replicate_selection_vars = Map.empty,
      win = \<lparr>f0_start = Fin (- 3 / 2), f0_end = Fin 0, f1_start = Fin (5 / 2), f1_end = Fin 4\<rparr>,
      self_c_target = 1 / 10 ^ 6, model_choice = ''Dose-Response'', display_unit = ''nM''\<rparr>"

section \<open>Point exclusion\<close>

text \<open>
  \<open>on_pick\<close>, lines 337 to 344: the picked point's index leaves the file's
  \<open>excluded_indices\<close> when it is there and enters it otherwise.
\<close>

definition toggle_excluded :: "nat \<Rightarrow> nat set \<Rightarrow> nat set" where
  "toggle_excluded i excluded = (if i \<in> excluded then excluded - {i} else insert i excluded)"

section \<open>numpy and Python helpers\<close>

text \<open>\<open>np.maximum\<close> and \<open>np.minimum\<close> give \<open>nan\<close> when either argument is \<open>nan\<close>.\<close>

definition np_maximum :: "fval \<Rightarrow> fval \<Rightarrow> fval" where
  "np_maximum a b = (if isnan a \<or> isnan b then NaN else if fle a b then b else a)"

definition np_minimum :: "fval \<Rightarrow> fval \<Rightarrow> fval" where
  "np_minimum a b = (if isnan a \<or> isnan b then NaN else if fle a b then a else b)"

text \<open>\<open>np.clip(a, lo, hi)\<close> is \<open>np.minimum(np.maximum(a, lo), hi)\<close>.\<close>

definition np_clip :: "fval \<Rightarrow> fval \<Rightarrow> fval \<Rightarrow> fval" where
  "np_clip a lo hi = np_minimum (np_maximum a lo) hi"

text \<open>
  Python's built-in \<open>min\<close> and \<open>max\<close> keep the first argument unless a later one
  compares strictly below (above) it.
\<close>

definition py_min :: "fval \<Rightarrow> fval \<Rightarrow> fval" where
  "py_min a b = (if flt b a then b else a)"

definition py_max :: "fval \<Rightarrow> fval \<Rightarrow> fval" where
  "py_max a b = (if flt a b then b else a)"

text \<open>\<open>np.min\<close> and \<open>np.max\<close> of an array raise \<open>ValueError\<close> on an empty one.\<close>

definition np_min :: "fval list \<Rightarrow> py_error + fval" where
  "np_min xs =
     (case xs of
        [] \<Rightarrow> Inl (ValueError ''zero-size array to reduction operation minimum which has no identity'')
      | y # ys \<Rightarrow> Inr (foldl np_minimum y ys))"

definition np_max :: "fval list \<Rightarrow> py_error + fval" where
  "np_max xs =
     (case xs of
        [] \<Rightarrow> Inl (ValueError ''zero-size array to reduction operation maximum which has no identity'')
      | y # ys \<Rightarrow> Inr (foldl np_maximum y ys))"

text \<open>Sorting as \<open>np.sort\<close> does: ascending, \<open>nan\<close> last.\<close>

fun sort_le :: "fval \<Rightarrow> fval \<Rightarrow> bool" where
  "sort_le _ NaN = True"
| "sort_le NaN _ = False"
| "sort_le a b = fle a b"

fun np_insort :: "fval \<Rightarrow> fval list \<Rightarrow> fval list" where
  "np_insort x [] = [x]"
| "np_insort x (y # ys) = (if sort_le x y then x # y # ys else y # np_insort x ys)"

definition np_sort :: "fval list \<Rightarrow> fval list" where
  "np_sort xs = foldr np_insort xs []"

text \<open>
  \<open>np.median\<close>: \<open>nan\<close> for an empty array or one holding a \<open>nan\<close>, else the middle
  element of the sorted array, or the mean of the two middle ones.
\<close>

definition np_median :: "fval list \<Rightarrow> fval" where
  "np_median xs =
     (if xs = [] \<or> list_ex isnan xs then NaN
      else
        let s = np_sort xs; n = length s
        in if odd n then s ! (n div 2)
           else fdiv (fadd (s ! (n div 2 - 1)) (s ! (n div 2))) (Fin 2))"

text \<open>\<open>np.log10\<close> of a concentration: \<open>-inf\<close> at zero and \<open>nan\<close> below, with a warning.\<close>

definition np_log10 :: "real \<Rightarrow> fval" where
  "np_log10 c = (if c > 0 then Fin (log 10 c) else if c = 0 then NInf else NaN)"

text \<open>\<open>10 ** x\<close> for a numpy scalar \<open>x\<close>.\<close>

fun pow10 :: "fval \<Rightarrow> fval" where
  "pow10 (Fin x) = Fin (10 powr x)"
| "pow10 PInf = PInf"
| "pow10 NInf = Fin 0"
| "pow10 NaN = NaN"

section \<open>Binding models\<close>

text \<open>
  \<open>kd_model\<close>, lines 24 to 45, on an array \<open>c_ligand\<close> and a scalar \<open>c_target\<close>.
  The local variables \<open>discriminant\<close>, \<open>numerator\<close> and \<open>fraction_bound\<close> (after
  clipping) of one array element are functions of their own. Every operation is one of
  numpy on doubles and rounds its result; the square \<open>x ** 2\<close> is the rounded product
  of \<open>x\<close> with itself.
\<close>

definition kd_discriminant :: "fval \<Rightarrow> fval \<Rightarrow> fval \<Rightarrow> fval" where
  "kd_discriminant c c_target kd =
     fl_sub (fl_mul (fl_add (fl_add c c_target) kd) (fl_add (fl_add c c_target) kd))
            (fl_mul (fl_mul (Fin 4) c) c_target)"

definition kd_numerator :: "fval \<Rightarrow> fval \<Rightarrow> fval \<Rightarrow> fval" where
  "kd_numerator c c_target kd =
     fl_sub (fl_add (fl_add c c_target) kd)
            (fl_sqrt (np_maximum (Fin 0) (kd_discriminant c c_target kd)))"

definition kd_fraction_bound :: "fval \<Rightarrow> fval \<Rightarrow> fval \<Rightarrow> fval" where
  "kd_fraction_bound c c_target kd =
     np_clip (fl_div (kd_numerator c c_target kd) (fl_mul (Fin 2) c_target)) (Fin 0) (Fin 1)"

definition kd_model :: "fval list \<Rightarrow> fval \<Rightarrow> fval \<Rightarrow> fval \<Rightarrow> fval \<Rightarrow> fval list" where
  "kd_model c_ligand unbound bound kd c_target =
     (if feq c_target (Fin 0) then map (\<lambda>c. NaN) c_ligand
      else map (\<lambda>c. fl_add unbound (fl_mul (fl_sub bound unbound) (kd_fraction_bound c c_target kd)))
             c_ligand)"

section \<open>Replicate aggregator\<close>





record replicate_data =
  file_name :: string
  Concentration :: "real list"
  Fnorm :: "fval list"
  Excluded_Concentration :: "real list"
  Excluded_Fnorm :: "fval list"



text \<open>
  The statistics of one concentration group, as pandas' \<open>groupby(...).agg(['mean', 'std',
  'count'])\<close> computes them on values without \<open>nan\<close>: the standard deviation is the
  sample one (\<open>ddof=1\<close>), \<open>nan\<close> for fewer than two values.
\<close>

definition group_mean :: "fval list \<Rightarrow> fval" where
  "group_mean fs = fdiv (fsum fs) (Fin (real (length fs)))"

definition group_std :: "fval list \<Rightarrow> fval" where
  "group_std fs =
     (if length fs < 2 then NaN
      else
        let m = group_mean fs
        in fsqrt (fdiv (fsum (map (\<lambda>f. fmul (fsub f m) (fsub f m)) fs))
                       (Fin (real (length fs - 1)))))"

record grouped_row =
  Conc :: real
  Fnorm_mean :: fval
  Fnorm_std :: fval
  Replicate_Count :: nat
  Fnorm_sem :: fval

text \<open>
  \<^verbatim>\<open>row['Fnorm_std'] / np.sqrt(row['Replicate_Count']) if row['Replicate_Count'] > 1 else np.nan\<close>
\<close>

definition sem_of :: "fval \<Rightarrow> nat \<Rightarrow> fval" where
  "sem_of std n = (if n > 1 then fdiv std (fsqrt (Fin (real n))) else NaN)"

text \<open>
  Lines 746 to 753: one row per distinct concentration, in ascending order, each with
  the values of the rows of that concentration.
\<close>

definition grouped_data :: "(real \<times> fval) list \<Rightarrow> grouped_row list" where
  "grouped_data reps_df =
     map (\<lambda>c.
        let fs = map snd (filter (\<lambda>cf. fst cf = c) reps_df)
        in \<lparr>Conc = c, Fnorm_mean = group_mean fs, Fnorm_std = group_std fs,
            Replicate_Count = length fs,
            Fnorm_sem = sem_of (group_std fs) (length fs)\<rparr>)
       (sort (remdups (map fst reps_df)))"

section \<open>Text output\<close>

text \<open>A natural number in decimal, as \<open>str\<close> prints it.\<close>

function show_nat :: "nat \<Rightarrow> string" where
  "show_nat n =
     (if n < 10 then [''0123456789'' ! n]
      else show_nat (n div 10) @ [''0123456789'' ! (n mod 10)])"
  by pat_completeness auto
termination
  by (relation "measure (\<lambda>n. n)") auto

declare show_nat.simps [simp del]

text \<open>
  Python's float formatting rounds the decimal expansion of the value to the digits it
  prints with \<open>round_half_even\<close>.
\<close>

definition two_digits :: "nat \<Rightarrow> string" where
  "two_digits n = (if n < 10 then ''0'' @ show_nat n else show_nat n)"

text \<open>The format \<open>.2f\<close> of a finite value.\<close>

definition fmt_2f_real :: "real \<Rightarrow> string" where
  "fmt_2f_real x =
     (let n = nat (round_half_even (\<bar>x\<bar> * 100))
      in (if x < 0 then ''-'' else []) @ show_nat (n div 100) @ ''.'' @ two_digits (n mod 100))"

text \<open>
  The decimal exponent of a positive real \<open>x\<close>: the integer \<open>e\<close> with
  \<open>10 ^ e \<le> x < 10 ^ (e + 1)\<close>, counted from the digits of the integer part of \<open>x\<close>
  or of \<open>1 / x\<close>.
\<close>

definition decimal_exponent :: "real \<Rightarrow> int" where
  "decimal_exponent x =
     (if 1 \<le> x then int (length (show_nat (nat \<lfloor>x\<rfloor>))) - 1
      else - int (length (show_nat (nat (\<lceil>1 / x\<rceil> - 1)))))"

definition scale10 :: "real \<Rightarrow> int \<Rightarrow> real" where
  "scale10 x e = (if 0 \<le> e then x / 10 ^ nat e else x * 10 ^ nat (- e))"

text \<open>
  The format \<open>.2e\<close> of a finite value: a three-digit mantissa rounded as above, and
  an exponent of at least two digits with its sign.
\<close>

definition fmt_2e_real :: "real \<Rightarrow> string" where
  "fmt_2e_real x =
     (if x = 0 then ''0.00e+00''
      else
        let e0 = decimal_exponent \<bar>x\<bar>;
            m0 = nat (round_half_even (scale10 \<bar>x\<bar> e0 * 100));
            e = (if m0 = 1000 then e0 + 1 else e0);
            m = (if m0 = 1000 then 100 else m0)
        in (if x < 0 then ''-'' else []) @ show_nat (m div 100) @ ''.'' @ two_digits (m mod 100)
           @ ''e'' @ (if e < 0 then ''-'' else ''+'') @ two_digits (nat \<bar>e\<bar>))"

fun fmt_2f :: "fval \<Rightarrow> string" where
  "fmt_2f (Fin x) = fmt_2f_real x"
| "fmt_2f PInf = ''inf''"
| "fmt_2f NInf = ''-inf''"
| "fmt_2f NaN = ''nan''"

fun fmt_2e :: "fval \<Rightarrow> string" where
  "fmt_2e (Fin x) = fmt_2e_real x"
| "fmt_2e PInf = ''inf''"
| "fmt_2e NInf = ''-inf''"
| "fmt_2e NaN = ''nan''"

text \<open>The unit selector with the micro sign, in UTF-8.\<close>

definition micro_molar :: string where
  "micro_molar = [CHR 0xC2, CHR 0xB5, CHR ''M'']"

text \<open>\<open>format_molar_conc\<close>, lines 1077 to 1093.\<close>

definition format_molar_conc :: "analyzer \<Rightarrow> fval \<Rightarrow> string \<Rightarrow> string" where
  "format_molar_conc self conc_molar label =
     (if isnan conc_molar then label @ '' = NaN''
      else
        let unit = display_unit self
        in if unit = ''M'' then label @ '' = '' @ fmt_2e conc_molar @ '' M''
           else if unit = ''mM'' then
             label @ '' = '' @ fmt_2f (fmul conc_molar (Fin (10 ^ 3))) @ '' mM''
           else if unit = micro_molar then
             label @ '' = '' @ fmt_2f (fmul conc_molar (Fin (10 ^ 6))) @ '' '' @ micro_molar
           else if unit = ''nM'' then
             label @ '' = '' @ fmt_2f (fmul conc_molar (Fin (10 ^ 9))) @ '' nM''
           else if unit = ''pM'' then
             label @ '' = '' @ fmt_2f (fmul conc_molar (Fin (10 ^ 12))) @ '' pM''
           else label @ '' = '' @ fmt_2e conc_molar @ '' M'')"

section \<open>Curve fitter\<close>

text \<open>
  Lines 769 to 790: the seeds of the two plateau parameters and their bounds, from the
  least and the greatest mean Fnorm. The means are numpy doubles, so the two margins
  and the nudge are rounded sums; the literals \<open>0.0\<close>, \<open>0.5\<close> and \<open>3.0\<close> are doubles,
  and \<open>0.01\<close> denotes the double nearest to it.
\<close>

record fnorm_seed =
  p0_bottom_avg :: fval
  p0_top_avg :: fval
  bounds_lower_fnorm_avg :: "fval list"
  bounds_upper_fnorm_avg :: "fval list"

definition seed_fnorm :: "fval \<Rightarrow> fval \<Rightarrow> fnorm_seed" where
  "seed_fnorm min_val_fnorms_avg max_val_fnorms_avg =
     (let p0_bottom = min_val_fnorms_avg;
          p0_top = max_val_fnorms_avg;
          lower = [py_min (Fin 0) (fl_sub min_val_fnorms_avg (Fin (1 / 2))),
                   py_min (Fin 0) (fl_sub min_val_fnorms_avg (Fin (1 / 2)))];
          upper = [py_max (Fin 3) (fl_add max_val_fnorms_avg (Fin (1 / 2))),
                   py_max (Fin 3) (fl_add max_val_fnorms_avg (Fin (1 / 2)))];
          inverted = flt p0_top p0_bottom;
          p0_top' = (if inverted then p0_bottom else p0_top);
          p0_bottom' = (if inverted then p0_top else p0_bottom);
          p0_top'' = (if feq p0_bottom' p0_top'
                      then fl_add p0_top' (round_to_double (1 / 100)) else p0_top')
      in \<lparr>p0_bottom_avg = np_clip p0_bottom' (lower ! 0) (upper ! 0),
          p0_top_avg = np_clip p0_top'' (lower ! 1) (upper ! 1),
          bounds_lower_fnorm_avg = lower,
          bounds_upper_fnorm_avg = upper\<rparr>)"

text \<open>
  The initial vector \<open>p0\<close> and the pair of bound vectors of each model, as passed to
  \<open>curve_fit\<close> (lines 793 to 797, 805 to 812, 821 to 826).
\<close>

definition hill_setup ::
  "fnorm_seed \<Rightarrow> fval list \<Rightarrow> py_error + (fval list \<times> fval list \<times> fval list)" where
  "hill_setup seed avg_log_concs =
     (case np_min avg_log_concs of
        Inl e \<Rightarrow> Inl e
      | Inr lo \<Rightarrow>
          (case np_max avg_log_concs of
             Inl e \<Rightarrow> Inl e
           | Inr hi \<Rightarrow>
               Inr ([p0_bottom_avg seed, p0_top_avg seed, np_median avg_log_concs, Fin 1],
                    [bounds_lower_fnorm_avg seed ! 0, bounds_lower_fnorm_avg seed ! 1,
                     fsub lo (Fin 2), Fin (1 / 10)],
                    [bounds_upper_fnorm_avg seed ! 0, bounds_upper_fnorm_avg seed ! 1,
                     fadd hi (Fin 2), Fin 5])))"

definition kd_setup ::
  "fnorm_seed \<Rightarrow> real list \<Rightarrow> real \<Rightarrow> fval list \<times> fval list \<times> fval list" where
  "kd_setup seed avg_actual_concs target =
     (let kd_lower_bound = Fin (1 / 10 ^ 12);
          kd_upper_bound = Fin (1 / 10 ^ 2);
          median_ligand_conc_avg = np_median (map Fin avg_actual_concs);
          p0_kd_val_avg =
            py_max (Fin (1 / 10 ^ 9))
              (py_min (py_min median_ligand_conc_avg (Fin target)) (Fin (1 / 10 ^ 6)))
      in ([p0_bottom_avg seed, p0_top_avg seed, p0_kd_val_avg],
          [bounds_lower_fnorm_avg seed ! 0, bounds_lower_fnorm_avg seed ! 1, kd_lower_bound],
          [bounds_upper_fnorm_avg seed ! 0, bounds_upper_fnorm_avg seed ! 1, kd_upper_bound]))"

definition dr_setup ::
  "fnorm_seed \<Rightarrow> fval list \<Rightarrow> py_error + (fval list \<times> fval list \<times> fval list)" where
  "dr_setup seed avg_log_concs =
     (case np_min avg_log_concs of
        Inl e \<Rightarrow> Inl e
      | Inr lo \<Rightarrow>
          (case np_max avg_log_concs of
             Inl e \<Rightarrow> Inl e
           | Inr hi \<Rightarrow>
               Inr ([p0_bottom_avg seed, p0_top_avg seed, np_median avg_log_concs, Fin 1],
                    [bounds_lower_fnorm_avg seed ! 0, bounds_lower_fnorm_avg seed ! 1,
                     fsub lo (Fin 2), Fin (- 5)],
                    [bounds_upper_fnorm_avg seed ! 0, bounds_upper_fnorm_avg seed ! 1,
                     fadd hi (Fin 2), Fin 5])))"

text \<open>
  \<open>scipy.optimize.curve_fit\<close> is outside the program: it is a parameter of the model,
  given the model function (by name; the Kd lambda with the target concentration it
  closes over), the data, \<open>p0\<close> and the bounds, and returning the fitted vector or
  raising.
\<close>

datatype model_fn = Binding_curve | Kd_model_at real | Dose_response_curve

type_synonym curve_fit =
  "model_fn \<Rightarrow> fval list \<Rightarrow> fval list \<Rightarrow> fval list \<Rightarrow> fval list \<times> fval list \<Rightarrow>
     py_error + fval list"



definition popt_at :: "fval list \<Rightarrow> nat \<Rightarrow> py_error + fval" where
  "popt_at popt i =
     (if i < length popt then Inr (popt ! i)
      else Inl (IndexError (''index '' @ show_nat i @ '' is out of bounds for axis 0 with size ''
                  @ show_nat (length popt))))"

text \<open>
  What follows a call of \<open>curve_fit\<close> in each branch (lines 800 to 803, 816 to 819,
  829 to 832): the affinity read from \<open>popt[2]\<close>, the comment and the fitted vector
  are stored, unless the call or the indexing raised.
\<close>

definition store_fit ::
  "(fval \<Rightarrow> fval) \<Rightarrow> string \<Rightarrow> py_error + fval list \<Rightarrow>
     py_error + (fval \<times> string \<times> fval list) option" where
  "store_fit affinity comment fitted =
     (case fitted of
        Inl e \<Rightarrow> Inl e
      | Inr popt \<Rightarrow>
          (case popt_at popt 2 of
             Inl e \<Rightarrow> Inl e
           | Inr v \<Rightarrow> Inr (Some (affinity v, comment, popt))))"

text \<open>
  The body of the \<open>try\<close> (lines 769 to 832): what it stores in the result
  (\<open>kd_or_ec50_result\<close>, \<open>fit_comment\<close>, \<open>fit_popt\<close>), nothing when the model choice
  is none of the three, or the exception it raises.
\<close>

definition fit_attempt ::
  "curve_fit \<Rightarrow> analyzer \<Rightarrow> real list \<Rightarrow> fval list \<Rightarrow> fval list \<Rightarrow>
     py_error + (fval \<times> string \<times> fval list) option" where
  "fit_attempt cf self avg_actual_concs avg_log_concs avg_fnorms =
     (case np_min avg_fnorms of
        Inl e \<Rightarrow> Inl e
      | Inr min_val_fnorms_avg \<Rightarrow>
     (case np_max avg_fnorms of
        Inl e \<Rightarrow> Inl e
      | Inr max_val_fnorms_avg \<Rightarrow>
     (let seed = seed_fnorm min_val_fnorms_avg max_val_fnorms_avg
      in if model_choice self = ''Hill'' then
           (case hill_setup seed avg_log_concs of
              Inl e \<Rightarrow> Inl e
            | Inr (p0_hill_avg, bounds_hill_avg) \<Rightarrow>
                store_fit pow10 ''Hill Model''
                  (cf Binding_curve avg_log_concs avg_fnorms p0_hill_avg bounds_hill_avg))
         else if model_choice self = ''Kd'' then
           (case kd_setup seed avg_actual_concs (self_c_target self) of
              (p0_kd_avg, bounds_kd_avg) \<Rightarrow>
                store_fit (\<lambda>v. v) ''Kd Model''
                  (cf (Kd_model_at (self_c_target self)) (map Fin avg_actual_concs) avg_fnorms
                     p0_kd_avg bounds_kd_avg))
         else if model_choice self = ''Dose-Response'' then
           (case dr_setup seed avg_log_concs of
              Inl e \<Rightarrow> Inl e
            | Inr (p0_dr_avg, bounds_dr_avg) \<Rightarrow>
                store_fit pow10 ''Dose-Response Model''
                  (cf Dose_response_curve avg_log_concs avg_fnorms p0_dr_avg bounds_dr_avg))
         else Inr None)))"




section \<open>Reference statements\<close>








text \<open>An initial vector lies within a pair of bound vectors, component by component.\<close>

definition within_bounds :: "fval list \<Rightarrow> fval list \<Rightarrow> fval list \<Rightarrow> bool" where
  "within_bounds p0 lower upper = (list_all2 fle lower p0 \<and> list_all2 fle p0 upper)"

text \<open>The median of real numbers.\<close>

definition median :: "real list \<Rightarrow> real" where
  "median xs =
     (let s = sort xs; n = length s
      in if odd n then s ! (n div 2) else (s ! (n div 2 - 1) + s ! (n div 2)) / 2)"

text \<open>
  The initial Kd guess as the specification words it: the median concentration clamped
  by the target concentration and the upper bound 1e-6, read as the least of the three,
  and read as a clamp into the interval from the target concentration to 1e-6.
\<close>

definition spec_kd_guess_least :: "real \<Rightarrow> real \<Rightarrow> real" where
  "spec_kd_guess_least median_conc target = min median_conc (min target (1 / 10 ^ 6))"

definition spec_kd_guess_clamp :: "real \<Rightarrow> real \<Rightarrow> real" where
  "spec_kd_guess_clamp median_conc target = min (max median_conc target) (1 / 10 ^ 6)"








definition failing_fit :: curve_fit where
  "failing_fit f xdata ydata p0 bounds =
     Inl (RuntimeError ''Optimal parameters not found'')"



text \<open>
  A fitter that returns the initial vector followed by the two bound vectors it was
  called with.
\<close>

definition echo_fit :: curve_fit where
  "echo_fit f xdata ydata p0 bounds = Inr (p0 @ fst bounds @ snd bounds)"

section \<open>Helper facts\<close>


section \<open>Rounding to the nearest double\<close>

lemma rhe_of_int [simp]: "round_half_even (of_int n) = n"
  by (simp add: round_half_even_def)

lemma rhe_upper: "real_of_int (round_half_even a) \<le> a + 1 / 2"
  unfolding round_half_even_def Let_def by (auto; linarith)

lemma rhe_lower: "a - 1 / 2 \<le> real_of_int (round_half_even a)"
  unfolding round_half_even_def Let_def by (auto; linarith)

lemma rhe_mono: "a \<le> b \<Longrightarrow> round_half_even a \<le> round_half_even b"
proof (cases "a = b")
  case False
  assume "a \<le> b"
  with False have "a < b"
    by simp
  with rhe_upper [of a] rhe_lower [of b]
  have "real_of_int (round_half_even a) < real_of_int (round_half_even b) + 1"
    by linarith
  then have "round_half_even a < round_half_even b + 1"
    by linarith
  then show ?thesis
    by simp
qed simp

lemma rhe_minus: "round_half_even (- a) = - round_half_even a"
proof (cases "a \<in> \<int>")
  case True
  then obtain n where "a = of_int n"
    by (auto elim: Ints_cases)
  then have "round_half_even (- a) = round_half_even (of_int (- n))" "round_half_even a = n"
    by simp_all
  then show ?thesis
    by (simp only: rhe_of_int)
next
  case False
  have ne: "a \<noteq> real_of_int \<lfloor>a\<rfloor>"
    using False by (metis Ints_of_int)
  then have c: "\<lceil>a\<rceil> = \<lfloor>a\<rfloor> + 1"
    by (simp add: ceiling_altdef)
  have f: "\<lfloor>- a\<rfloor> = - \<lfloor>a\<rfloor> - 1"
    using c by (simp add: floor_minus)
  show ?thesis
    unfolding round_half_even_def Let_def f using ne by auto
qed

lemma rhe_near: "\<bar>a - real_of_int n\<bar> < 1 / 2 \<Longrightarrow> round_half_even a = n"
  using rhe_upper [of a] rhe_lower [of a] by linarith

lemma rhe_le: "a \<le> real_of_int n \<Longrightarrow> round_half_even a \<le> n"
  using rhe_mono [of a "of_int n"] by simp

lemma rhe_ge: "real_of_int n \<le> a \<Longrightarrow> n \<le> round_half_even a"
  using rhe_mono [of "of_int n" a] by simp

lemma rhe_half: "round_half_even (1 / 2) = 0" "round_half_even (- 1 / 2) = 0"
  by (simp_all add: round_half_even_def)

lemma powr_le_pos: "2 powr a \<le> (x::real) \<Longrightarrow> 0 < x"
  using powr_gt_zero [of 2 a] by linarith

lemma powr_le_abs_nonzero: "2 powr a \<le> \<bar>x::real\<bar> \<Longrightarrow> x \<noteq> 0"
  using powr_gt_zero [of 2 a] by auto

lemma quantum_pos [simp]: "0 < quantum x"
  by (simp add: quantum_def)

lemma quantum_nonneg [simp]: "0 \<le> quantum x"
  by (simp add: quantum_def)

lemma quantum_ne [simp]: "quantum x \<noteq> 0"
  by (simp add: quantum_def)

lemma quantum_abs [simp]: "\<bar>quantum x\<bar> = quantum x"
  by (simp add: quantum_def)

lemma binade_ge: "- 1022 \<le> binade x"
  by (simp add: binade_def)

lemma binade_minus [simp]: "binade (- x) = binade x"
  by (simp add: binade_def)

lemma quantum_minus [simp]: "quantum (- x) = quantum x"
  by (simp add: quantum_def)

lemma binade_upper:
  assumes "x \<noteq> 0"
  shows "\<bar>x\<bar> < 2 powr (real_of_int (binade x) + 1)"
proof -
  have "log 2 \<bar>x\<bar> < real_of_int \<lfloor>log 2 \<bar>x\<bar>\<rfloor> + 1"
    by linarith
  also have "\<dots> \<le> real_of_int (binade x) + 1"
    by (simp add: binade_def)
  finally have "log 2 \<bar>x\<bar> < real_of_int (binade x) + 1" .
  then show ?thesis
    using assms by (simp add: log_less_iff)
qed

lemma binade_lower:
  assumes "x \<noteq> 0" and "- 1022 < binade x"
  shows "2 powr real_of_int (binade x) \<le> \<bar>x\<bar>"
proof -
  from assms(2) have "binade x = \<lfloor>log 2 \<bar>x\<bar>\<rfloor>"
    by (simp add: binade_def max_def split: if_splits)
  then have "real_of_int (binade x) \<le> log 2 \<bar>x\<bar>"
    by simp
  then show ?thesis
    using assms(1) by (simp add: le_log_iff)
qed

lemma binade_eq:
  assumes "2 powr real_of_int e \<le> \<bar>x\<bar>" and "\<bar>x\<bar> < 2 powr (real_of_int e + 1)" and "- 1022 \<le> e"
  shows "binade x = e"
proof -
  have pos: "0 < \<bar>x\<bar>"
    using assms(1) by (rule powr_le_pos)
  have "real_of_int e \<le> log 2 \<bar>x\<bar>" "log 2 \<bar>x\<bar> < real_of_int e + 1"
    using assms(1,2) pos by (simp_all add: le_log_iff log_less_iff)
  then have "\<lfloor>log 2 \<bar>x\<bar>\<rfloor> = e"
    by linarith
  with assms(3) show ?thesis
    by (simp add: binade_def)
qed

lemma binade_subnormal:
  assumes "x \<noteq> 0" and "\<bar>x\<bar> < 2 powr (- 1021)"
  shows "binade x = - 1022"
proof -
  have "log 2 \<bar>x\<bar> < - 1021"
    using assms by (simp add: log_less_iff)
  then have "\<lfloor>log 2 \<bar>x\<bar>\<rfloor> \<le> - 1022"
    by linarith
  then show ?thesis
    by (simp add: binade_def)
qed

lemma binade_mono:
  assumes "x \<noteq> 0" and "\<bar>x\<bar> \<le> \<bar>y\<bar>"
  shows "binade x \<le> binade y"
proof -
  have "log 2 \<bar>x\<bar> \<le> log 2 \<bar>y\<bar>"
    using assms by simp
  then have "\<lfloor>log 2 \<bar>x\<bar>\<rfloor> \<le> \<lfloor>log 2 \<bar>y\<bar>\<rfloor>"
    by (rule floor_mono)
  then show ?thesis
    by (simp add: binade_def)
qed

lemma nearest_double_zero [simp]: "nearest_double 0 = 0"
  by (simp add: nearest_double_def)

lemma nearest_double_minus: "nearest_double (- x) = - nearest_double x"
  by (simp add: nearest_double_def rhe_minus)

lemma nearest_double_nonneg: "0 \<le> x \<Longrightarrow> 0 \<le> nearest_double x"
proof -
  assume "0 \<le> x"
  then have "real_of_int 0 \<le> x / quantum x"
    by simp
  then have "0 \<le> round_half_even (x / quantum x)"
    by (rule rhe_ge)
  then show ?thesis
    by (simp add: nearest_double_def)
qed

lemma nearest_double_error:
  "\<bar>nearest_double x - x\<bar> \<le> quantum x / 2"
proof (cases "x = 0")
  case False
  have "\<bar>real_of_int (round_half_even (x / quantum x)) - x / quantum x\<bar> \<le> 1 / 2"
    using rhe_upper [of "x / quantum x"] rhe_lower [of "x / quantum x"] by linarith
  then have "\<bar>real_of_int (round_half_even (x / quantum x)) - x / quantum x\<bar> * quantum x
      \<le> 1 / 2 * quantum x"
    by (rule mult_right_mono) simp
  moreover have "\<bar>real_of_int (round_half_even (x / quantum x)) - x / quantum x\<bar> * quantum x
      = \<bar>real_of_int (round_half_even (x / quantum x)) * quantum x - x\<bar>"
  proof -
    have "\<bar>real_of_int (round_half_even (x / quantum x)) - x / quantum x\<bar> * quantum x
      = \<bar>(real_of_int (round_half_even (x / quantum x)) - x / quantum x) * quantum x\<bar>"
      by (simp add: abs_mult)
    also have "(real_of_int (round_half_even (x / quantum x)) - x / quantum x) * quantum x
      = real_of_int (round_half_even (x / quantum x)) * quantum x - x"
      using quantum_pos [of x] by (simp add: field_simps)
    finally show ?thesis .
  qed
  ultimately show ?thesis
    using False by (simp add: nearest_double_def)
qed (simp add: less_imp_le)

text \<open>The count of quanta of a value stays within 53 bits.\<close>

lemma count_bound:
  assumes "x \<noteq> 0"
  shows "\<bar>x / quantum x\<bar> < 2 ^ 53"
proof -
  have "\<bar>x\<bar> < 2 powr (real_of_int (binade x) + 1)"
    by (rule binade_upper [OF assms])
  also have "\<dots> = 2 ^ 53 * quantum x"
  proof -
    have "real_of_int (binade x) + 1 = 53 + (real_of_int (binade x) - 52)"
      by simp
    then have "2 powr (real_of_int (binade x) + 1) = 2 powr 53 * 2 powr (real_of_int (binade x) - 52)"
      by (simp only: powr_add)
    then show ?thesis
      by (simp add: quantum_def)
  qed
  finally have "\<bar>x\<bar> / quantum x < 2 ^ 53"
    using quantum_pos [of x] by (simp add: field_simps)
  then show ?thesis
    by simp
qed

lemma rhe_count_bound:
  assumes "x \<noteq> 0"
  shows "\<bar>round_half_even (x / quantum x)\<bar> \<le> 2 ^ 53"
proof -
  from count_bound [OF assms] have "x / quantum x \<le> 2 ^ 53" "- (2 ^ 53) \<le> x / quantum x"
    by linarith+
  then have "x / quantum x \<le> real_of_int (2 ^ 53)" "real_of_int (- (2 ^ 53)) \<le> x / quantum x"
    by simp_all
  from rhe_le [OF this(1)] rhe_ge [OF this(2)] show ?thesis
    by simp
qed

text \<open>Values with at most 53 significant bits above the least exponent are kept.\<close>

lemma nearest_double_repr_lt:
  assumes "\<bar>k\<bar> < 2 ^ 53" and "- 1074 \<le> e"
  shows "nearest_double (real_of_int k * 2 powr real_of_int e) = real_of_int k * 2 powr real_of_int e"
proof (cases "k = 0")
  case False
  define x where "x = real_of_int k * 2 powr real_of_int e"
  have x0: "x \<noteq> 0"
    using False by (simp add: x_def)
  have "\<bar>x\<bar> = real_of_int \<bar>k\<bar> * 2 powr real_of_int e"
    by (simp add: abs_mult x_def)
  also have "\<dots> < 2 ^ 53 * 2 powr real_of_int e"
  proof -
    have "real_of_int \<bar>k\<bar> < real_of_int (2 ^ 53)"
      using assms(1) by (simp only: of_int_less_iff)
    then show ?thesis
      by simp
  qed
  also have "\<dots> = 2 powr (real_of_int e + 53)"
    by (simp add: powr_add)
  finally have "log 2 \<bar>x\<bar> < real_of_int e + 53"
    using x0 by (simp add: log_less_iff)
  then have "\<lfloor>log 2 \<bar>x\<bar>\<rfloor> \<le> e + 52"
    by linarith
  with assms(2) have b: "binade x - 52 \<le> e"
    by (simp add: binade_def)
  define d where "d = nat (e - (binade x - 52))"
  have q: "quantum x = 2 powr (real_of_int (binade x) - 52)"
    by (simp add: quantum_def)
  from b have e: "real_of_int e = real d + (real_of_int (binade x) - 52)"
    by (simp add: d_def)
  have p: "2 powr real_of_int e = 2 ^ d * quantum x"
    unfolding e powr_add q by (simp add: powr_realpow)
  have "x = real_of_int k * (2 ^ d * quantum x)"
    by (subst x_def) (simp only: p)
  then have xq: "x = real_of_int (k * 2 ^ d) * quantum x"
    by simp
  have "x / quantum x = real_of_int (k * 2 ^ d)"
    by (subst xq) simp
  then have "round_half_even (x / quantum x) = k * 2 ^ d"
    by (simp only: rhe_of_int)
  then have "nearest_double x = real_of_int (k * 2 ^ d) * quantum x"
    using x0 by (simp add: nearest_double_def)
  with xq have "nearest_double x = x"
    by (rule ssubst [where P = "\<lambda>v. nearest_double x = v"])
  then show ?thesis
    unfolding x_def .
qed simp

lemma nearest_double_repr:
  assumes "\<bar>k\<bar> \<le> 2 ^ 53" and "- 1074 \<le> e"
  shows "nearest_double (real_of_int k * 2 powr real_of_int e) = real_of_int k * 2 powr real_of_int e"
proof (cases "\<bar>k\<bar> < 2 ^ 53")
  case True
  then show ?thesis
    by (rule nearest_double_repr_lt) (rule assms(2))
next
  case False
  with assms(1) have "\<bar>k\<bar> = 2 ^ 53"
    by simp
  then consider "k = 2 ^ 53" | "k = - (2 ^ 53)"
    by linarith
  then have "real_of_int k * 2 powr real_of_int e
      = real_of_int (k div 2) * 2 powr real_of_int (e + 1) \<and> \<bar>k div 2\<bar> < 2 ^ 53"
    by cases (simp_all add: powr_add)
  moreover have "- 1074 \<le> e + 1"
    using assms(2) by simp
  ultimately show ?thesis
    using nearest_double_repr_lt [of "k div 2" "e + 1"] by simp
qed

lemma nearest_double_idem: "nearest_double (nearest_double x) = nearest_double x"
proof (cases "x = 0")
  case False
  have "nearest_double x = real_of_int (round_half_even (x / quantum x)) * 2 powr real_of_int (binade x - 52)"
    using False by (simp add: nearest_double_def quantum_def)
  moreover have "- 1074 \<le> binade x - 52"
    using binade_ge [of x] by simp
  ultimately show ?thesis
    using nearest_double_repr [OF rhe_count_bound [OF False], of "binade x - 52"] by simp
qed simp

lemma quantum_scale:
  "2 ^ 53 * quantum x = 2 powr (real_of_int (binade x) + 1)"
  "2 ^ 52 * quantum x = 2 powr real_of_int (binade x)"
proof -
  have "real_of_int (binade x) + 1 = 53 + (real_of_int (binade x) - 52)"
    "real_of_int (binade x) = 52 + (real_of_int (binade x) - 52)"
    by simp_all
  then have "2 powr (real_of_int (binade x) + 1) = 2 powr 53 * 2 powr (real_of_int (binade x) - 52)"
    "2 powr real_of_int (binade x) = 2 powr 52 * 2 powr (real_of_int (binade x) - 52)"
    by (metis powr_add)+
  then show "2 ^ 53 * quantum x = 2 powr (real_of_int (binade x) + 1)"
    "2 ^ 52 * quantum x = 2 powr real_of_int (binade x)"
    by (simp_all add: quantum_def)
qed

lemma nearest_double_le_binade:
  assumes "0 < x"
  shows "nearest_double x \<le> 2 powr (real_of_int (binade x) + 1)"
proof -
  from assms have x0: "x \<noteq> 0"
    by simp
  from rhe_count_bound [OF x0] have "round_half_even (x / quantum x) \<le> 2 ^ 53"
    by simp
  then have "real_of_int (round_half_even (x / quantum x)) \<le> real_of_int (2 ^ 53)"
    by (simp only: of_int_le_iff)
  then have "real_of_int (round_half_even (x / quantum x)) * quantum x \<le> 2 ^ 53 * quantum x"
    by (intro mult_right_mono) simp_all
  then have "real_of_int (round_half_even (x / quantum x)) * quantum x
      \<le> 2 powr (real_of_int (binade x) + 1)"
    by (simp only: quantum_scale)
  then show ?thesis
    using x0 by (simp add: nearest_double_def)
qed

lemma nearest_double_ge_binade:
  assumes "0 < x" and "- 1022 < binade x"
  shows "2 powr real_of_int (binade x) \<le> nearest_double x"
proof -
  from assms have x0: "x \<noteq> 0"
    by simp
  from binade_lower [OF x0 assms(2)] assms(1) have "2 powr real_of_int (binade x) \<le> x"
    by simp
  then have "2 ^ 52 * quantum x \<le> x"
    by (simp only: quantum_scale)
  then have "real_of_int (2 ^ 52) \<le> x / quantum x"
    using quantum_pos [of x] by (simp add: pos_le_divide_eq)
  then have "2 ^ 52 \<le> round_half_even (x / quantum x)"
    by (rule rhe_ge)
  then have "real_of_int (2 ^ 52) \<le> real_of_int (round_half_even (x / quantum x))"
    by (simp only: of_int_le_iff)
  then have "2 ^ 52 * quantum x \<le> real_of_int (round_half_even (x / quantum x)) * quantum x"
    by (intro mult_right_mono) simp_all
  then have "2 powr real_of_int (binade x)
      \<le> real_of_int (round_half_even (x / quantum x)) * quantum x"
    by (simp only: quantum_scale)
  then show ?thesis
    using x0 by (simp add: nearest_double_def)
qed

lemma nearest_double_mono_pos:
  assumes "0 < x" and "x \<le> y"
  shows "nearest_double x \<le> nearest_double y"
proof (cases "binade x = binade y")
  case True
  then have q: "quantum y = quantum x"
    by (simp add: quantum_def)
  have "x / quantum x \<le> y / quantum x"
    using assms(2) by (simp add: divide_right_mono)
  then have "round_half_even (x / quantum x) \<le> round_half_even (y / quantum x)"
    by (rule rhe_mono)
  then have "real_of_int (round_half_even (x / quantum x)) * quantum x
      \<le> real_of_int (round_half_even (y / quantum x)) * quantum x"
    by (intro mult_right_mono) simp_all
  then show ?thesis
    using assms by (simp add: nearest_double_def q)
next
  case False
  have "binade x \<le> binade y"
    using assms by (intro binade_mono) simp_all
  with False have lt: "binade x < binade y"
    by simp
  then have b: "- 1022 < binade y"
    using binade_ge [of x] by simp
  have "nearest_double x \<le> 2 powr (real_of_int (binade x) + 1)"
    by (rule nearest_double_le_binade [OF assms(1)])
  also have "\<dots> \<le> 2 powr real_of_int (binade y)"
    using lt by simp
  also have "\<dots> \<le> nearest_double y"
    using assms b by (intro nearest_double_ge_binade) simp_all
  finally show ?thesis .
qed

lemma nearest_double_mono:
  assumes "x \<le> y"
  shows "nearest_double x \<le> nearest_double y"
proof -
  consider "0 < x" | "x \<le> 0" "0 \<le> y" | "y < 0"
    by linarith
  then show ?thesis
  proof cases
    case 1
    then show ?thesis
      using assms by (rule nearest_double_mono_pos)
  next
    case 2
    from 2(1) have "0 \<le> nearest_double (- x)"
      by (intro nearest_double_nonneg) simp
    then have "nearest_double x \<le> 0"
      by (simp add: nearest_double_minus)
    also have "0 \<le> nearest_double y"
      using 2(2) by (rule nearest_double_nonneg)
    finally show ?thesis .
  next
    case 3
    then have "0 < - y" "- y \<le> - x"
      using assms by simp_all
    then have "nearest_double (- y) \<le> nearest_double (- x)"
      by (rule nearest_double_mono_pos)
    then show ?thesis
      by (simp add: nearest_double_minus)
  qed
qed

lemma overflow_bound_pos [simp]: "0 < overflow_bound" "\<not> overflow_bound \<le> 0"
  by (simp_all add: overflow_bound_def)

lemma round_to_double_not_nan [simp]: "round_to_double x \<noteq> NaN"
  by (simp add: round_to_double_def Let_def)

lemma round_to_double_zero [simp]: "round_to_double 0 = Fin 0"
  by (simp add: round_to_double_def)

lemma round_to_double_mono:
  assumes "x \<le> y"
  shows "fle (round_to_double x) (round_to_double y)"
  using nearest_double_mono [OF assms] by (simp add: round_to_double_def Let_def)

lemma round_to_double_idem:
  assumes "round_to_double x = Fin y"
  shows "round_to_double y = Fin y"
proof -
  from assms have y: "y = nearest_double x" and b: "\<not> overflow_bound \<le> y" "\<not> y \<le> - overflow_bound"
    by (auto simp: round_to_double_def Let_def split: if_splits)
  have "nearest_double y = y"
    unfolding y by (rule nearest_double_idem)
  with b show ?thesis
    by (simp add: round_to_double_def)
qed

lemma round_to_double_repr:
  assumes "\<bar>k\<bar> \<le> 2 ^ 53" and "- 1074 \<le> e"
      and "\<bar>real_of_int k * 2 powr real_of_int e\<bar> < overflow_bound"
  shows "round_to_double (real_of_int k * 2 powr real_of_int e) = Fin (real_of_int k * 2 powr real_of_int e)"
  using assms(3)
  by (auto simp: round_to_double_def Let_def nearest_double_repr [OF assms(1,2)] abs_less_iff)

lemma rhe_small:
  assumes "\<bar>a\<bar> \<le> 1 / 2"
  shows "round_half_even a = 0"
proof -
  consider "a = 1 / 2" | "a = - 1 / 2" | "\<bar>a - real_of_int 0\<bar> < 1 / 2"
    using assms by fastforce
  then show ?thesis
  proof cases
    case 1
    show ?thesis
      unfolding 1 by (rule rhe_half(1))
  next
    case 2
    show ?thesis
      unfolding 2 by (rule rhe_half(2))
  next
    case 3
    then show ?thesis
      by (rule rhe_near)
  qed
qed

lemma round_to_double_tiny:
  assumes "\<bar>x\<bar> \<le> 2 powr (- 1075)"
  shows "round_to_double x = Fin 0"
proof (cases "x = 0")
  case False
  have "(2::real) powr (- 1075) < 2 powr (- 1021)"
    by simp
  with assms have "\<bar>x\<bar> < 2 powr (- 1021)"
    by linarith
  from binade_subnormal [OF False this] have q: "quantum x = 2 powr (- 1074)"
    by (simp add: quantum_def)
  have "(2::real) powr (- 1075) = 1 / 2 * 2 powr (- 1074)"
  proof -
    have "(2::real) powr (- 1075) = 2 powr (- 1 + - 1074)"
      by simp
    also have "\<dots> = 2 powr (- 1) * 2 powr (- 1074)"
      by (simp only: powr_add)
    finally show ?thesis
      by simp
  qed
  with assms have "\<bar>x\<bar> \<le> 1 / 2 * quantum x"
    by (simp add: q)
  then have "\<bar>x / quantum x\<bar> \<le> 1 / 2"
    using quantum_pos [of x] by (simp add: field_simps)
  then have "round_half_even (x / quantum x) = 0"
    by (rule rhe_small)
  then have "nearest_double x = 0"
    by (simp add: nearest_double_def)
  then show ?thesis
    by (simp add: round_to_double_def)
qed simp

lemma round_to_double_huge:
  assumes "overflow_bound \<le> x"
  shows "round_to_double x = PInf"
proof -
  have "nearest_double (real_of_int 1 * 2 powr real_of_int 1024) = real_of_int 1 * 2 powr real_of_int 1024"
    by (rule nearest_double_repr) simp_all
  then have "nearest_double overflow_bound = overflow_bound"
    by (simp add: overflow_bound_def)
  with nearest_double_mono [OF assms] have "overflow_bound \<le> nearest_double x"
    by simp
  then show ?thesis
    by (simp add: round_to_double_def)
qed

lemma round_to_double_eval:
  assumes "2 powr real_of_int e \<le> \<bar>x\<bar>" and "\<bar>x\<bar> < 2 powr (real_of_int e + 1)"
      and "- 1022 \<le> e" and "e \<le> 1022"
  shows "round_to_double x =
           Fin (real_of_int (round_half_even (x / 2 powr (real_of_int e - 52)))
                  * 2 powr (real_of_int e - 52))"
proof -
  have b: "binade x = e"
    by (rule binade_eq [OF assms(1-3)])
  have x0: "x \<noteq> 0"
    using assms(1) by (rule powr_le_abs_nonzero)
  have q: "quantum x = 2 powr (real_of_int e - 52)"
    by (simp add: quantum_def b)
  have n: "nearest_double x = real_of_int (round_half_even (x / 2 powr (real_of_int e - 52)))
                  * 2 powr (real_of_int e - 52)"
    using x0 by (simp add: nearest_double_def q)
  have le: "(2::real) powr (real_of_int e + 1) \<le> 2 powr 1023"
    using assms(4) by (intro powr_mono) simp_all
  have ob: "(2::real) powr 1023 < overflow_bound"
    by (simp add: overflow_bound_def)
  have "\<bar>nearest_double x\<bar> \<le> 2 powr (real_of_int e + 1)"
  proof (cases "0 < x")
    case True
    from nearest_double_le_binade [OF True] nearest_double_nonneg [of x] True show ?thesis
      by (simp add: b)
  next
    case False
    with x0 have neg: "0 < - x"
      by simp
    from nearest_double_le_binade [OF neg] nearest_double_nonneg [of "- x"] neg show ?thesis
      by (simp add: b nearest_double_minus)
  qed
  with le ob have "\<bar>nearest_double x\<bar> < overflow_bound"
    by linarith
  then show ?thesis
    unfolding n [symmetric] by (auto simp: round_to_double_def Let_def abs_less_iff)
qed

lemma fl_Fin:
  "fl_add (Fin a) (Fin b) = round_to_double (a + b)"
  "fl_sub (Fin a) (Fin b) = round_to_double (a - b)"
  "fl_mul (Fin a) (Fin b) = round_to_double (a * b)"
  "b \<noteq> 0 \<Longrightarrow> fl_div (Fin a) (Fin b) = round_to_double (a / b)"
  "0 \<le> a \<Longrightarrow> fl_sqrt (Fin a) = round_to_double (sqrt a)"
  by (simp_all add: fl_add_def fl_sub_def fl_mul_def fl_div_def fl_sqrt_def rounded_def fsub_def)

lemma is_double_nearest:
  assumes "is_double s"
  shows "nearest_double s = s" and "s < overflow_bound" and "- overflow_bound < s"
  using assms by (auto simp: is_double_def round_to_double_def Let_def split: if_splits)

lemma is_doubleI:
  assumes "nearest_double s = s" and "s < overflow_bound" and "- overflow_bound < s"
  shows "is_double s"
  using assms by (simp add: is_double_def round_to_double_def Let_def)


lemma is_double_zero [simp]: "is_double 0"
  by (simp add: is_double_def)

lemma quantum_le:
  assumes "2 powr (- 1022) \<le> \<bar>x\<bar>"
  shows "2 ^ 52 * quantum x \<le> \<bar>x\<bar>"
proof (cases "binade x = - 1022")
  case True
  then show ?thesis
    using assms by (simp only: quantum_scale) simp
next
  case False
  with binade_ge [of x] have b: "- 1022 < binade x"
    by simp
  have "x \<noteq> 0"
    using assms by (rule powr_le_abs_nonzero)
  from binade_lower [OF this b] show ?thesis
    by (simp only: quantum_scale)
qed

lemma relative_error:
  assumes "2 powr (- 1022) \<le> \<bar>x\<bar>"
  shows "\<bar>nearest_double x - x\<bar> \<le> \<bar>x\<bar> / 2 ^ 53"
proof -
  from quantum_le [OF assms] have "quantum x / 2 \<le> \<bar>x\<bar> / 2 ^ 53"
    by simp
  with nearest_double_error [of x] show ?thesis
    by linarith
qed


lemma sqrt_of_rounded_square:
  assumes d: "is_double s" and lo: "2 powr (- 511) \<le> s" and D: "round_to_double (s * s) = Fin D"
  shows "round_to_double (sqrt D) = Fin s"
proof -
  define u where "u = quantum s"
  define m where "m = round_half_even (s / u)"
  define b where "b = binade s"
  define S where "S = s * s"
  have s0: "0 < s"
    using lo by (rule powr_le_pos)
  have u0: "0 < u"
    by (simp add: u_def)
  note ds = is_double_nearest [OF d]
  have sm: "s = real_of_int m * u"
    using ds(1) s0 by (simp add: nearest_double_def m_def u_def)
  have "- 511 \<le> log 2 s"
    using lo s0 by (simp add: le_log_iff)
  then have "- 511 \<le> \<lfloor>log 2 \<bar>s\<bar>\<rfloor>"
    using s0 by (simp add: le_floor_iff)
  then have bb: "- 511 \<le> b"
    by (simp add: b_def binade_def)
  have pb: "2 ^ 52 * u = 2 powr real_of_int b" "2 ^ 53 * u = 2 powr (real_of_int b + 1)"
    unfolding u_def b_def by (rule quantum_scale)+
  have "2 powr real_of_int b \<le> s"
    using binade_lower [of s] s0 bb by (simp add: b_def)
  then have "2 ^ 52 * u \<le> real_of_int m * u"
    unfolding pb sm [symmetric] .
  then have "real_of_int (2 ^ 52) \<le> real_of_int m"
    using u0 by simp
  then have m_lo: "2 ^ 52 \<le> m"
    by (simp only: of_int_le_iff)
  have "s < 2 powr (real_of_int b + 1)"
    using binade_upper [of s] s0 by (simp add: b_def)
  then have "real_of_int m * u < 2 ^ 53 * u"
    unfolding pb sm [symmetric] .
  then have "real_of_int m < real_of_int (2 ^ 53)"
    using u0 by simp
  then have "m < 2 ^ 53"
    by (simp only: of_int_less_iff)
  then have m_hi: "m \<le> 2 ^ 53 - 1"
    by simp
  have DN: "D = nearest_double S" and Dfin: "D < overflow_bound"
    using D by (auto simp: round_to_double_def Let_def S_def split: if_splits)
  have "2 powr (- 511) * 2 powr (- 511) \<le> s * s"
    using lo s0 by (intro mult_mono) simp_all
  moreover have "(2::real) powr (- 511) * 2 powr (- 511) = 2 powr (- 1022)"
    unfolding powr_add [symmetric] by simp
  ultimately have S_lo: "2 powr (- 1022) \<le> S"
    by (simp add: S_def)
  have S0: "0 < S"
    using s0 by (simp add: S_def)
  from relative_error [of S] S_lo S0 have "\<bar>D - S\<bar> \<le> S / 2 ^ 53"
    by (simp add: DN)
  then have err: "D - S \<le> S / 2 ^ 53" "S - D \<le> S / 2 ^ 53"
    by linarith+
  have up: "sqrt D \<le> s * (1 + 1 / 2 ^ 54)"
  proof (rule real_le_lsqrt)
    show "0 \<le> s * (1 + 1 / 2 ^ 54)"
      using s0 by simp
    have "(s * (1 + 1 / 2 ^ 54))\<^sup>2 = S * (1 + 1 / 2 ^ 54)\<^sup>2"
      by (simp add: S_def power2_eq_square)
    moreover have "S * (1 + 1 / 2 ^ 53) \<le> S * (1 + 1 / 2 ^ 54)\<^sup>2"
      using S0 by (intro mult_left_mono) (simp_all add: power2_eq_square)
    moreover have "D \<le> S * (1 + 1 / 2 ^ 53)"
      using err(1) by (simp add: algebra_simps)
    ultimately show "D \<le> (s * (1 + 1 / 2 ^ 54))\<^sup>2"
      by linarith
  qed
  have dn: "s * (1 - 1 / 2 ^ 54 - 1 / 2 ^ 107) \<le> sqrt D"
  proof (rule real_le_rsqrt)
    have "(s * (1 - 1 / 2 ^ 54 - 1 / 2 ^ 107))\<^sup>2 = S * (1 - 1 / 2 ^ 54 - 1 / 2 ^ 107)\<^sup>2"
      by (simp add: S_def power2_eq_square)
    moreover have "S * (1 - 1 / 2 ^ 54 - 1 / 2 ^ 107)\<^sup>2 \<le> S * (1 - 1 / 2 ^ 53)"
      using S0 by (intro mult_left_mono) (simp_all add: power2_eq_square)
    moreover have "S * (1 - 1 / 2 ^ 53) \<le> D"
      using err(2) by (simp add: algebra_simps)
    ultimately show "(s * (1 - 1 / 2 ^ 54 - 1 / 2 ^ 107))\<^sup>2 \<le> D"
      by linarith
  qed
  have s_hi: "s \<le> (2 ^ 53 - 1) * u"
  proof -
    from m_hi have "real_of_int m \<le> real_of_int (2 ^ 53 - 1)"
      by (simp only: of_int_le_iff)
    then have "real_of_int m * u \<le> real_of_int (2 ^ 53 - 1) * u"
      using u0 by (intro mult_right_mono) simp_all
    then show ?thesis
      unfolding sm [symmetric] by simp
  qed
  have "sqrt D - s \<le> s / 2 ^ 54"
    using up by (simp add: algebra_simps)
  moreover have "s / 2 ^ 54 < u / 2"
    using s_hi u0 by simp
  moreover have "s - sqrt D \<le> s * (1 / 2 ^ 54 + 1 / 2 ^ 107)"
    using dn by (simp add: algebra_simps)
  moreover have "s * (1 / 2 ^ 54 + 1 / 2 ^ 107) < u / 2"
    using s_hi u0 by simp
  ultimately have close: "\<bar>sqrt D - s\<bar> < u / 2"
    by linarith
  have lower: "2 powr real_of_int b \<le> sqrt D"
  proof (cases "m = 2 ^ 52")
    case True
    then have sb: "s = 2 powr real_of_int b"
      using sm pb(1) by simp
    have "S = real_of_int 1 * 2 powr real_of_int (2 * b)"
      unfolding S_def sb powr_add [symmetric] by simp
    moreover have "nearest_double (real_of_int 1 * 2 powr real_of_int (2 * b))
        = real_of_int 1 * 2 powr real_of_int (2 * b)"
      using bb by (intro nearest_double_repr) simp_all
    ultimately have "D = S"
      by (simp add: DN)
    then have "sqrt D = s"
      using s0 by (simp add: S_def)
    then show ?thesis
      by (simp add: sb)
  next
    case False
    with m_lo have "2 ^ 52 + 1 \<le> m"
      by simp
    then have "real_of_int (2 ^ 52 + 1) \<le> real_of_int m"
      by (simp only: of_int_le_iff)
    then have "real_of_int (2 ^ 52 + 1) * u \<le> real_of_int m * u"
      using u0 by (intro mult_right_mono) simp_all
    then have "2 ^ 52 * u + u \<le> s"
      unfolding sm [symmetric] by (simp add: algebra_simps)
    with close show ?thesis
      unfolding pb(1) [symmetric] using u0 by linarith
  qed
  have "sqrt D < s + u / 2"
    using close by linarith
  moreover have "s + u / 2 < 2 ^ 53 * u"
    using s_hi u0 by simp
  ultimately have upper: "sqrt D < 2 powr (real_of_int b + 1)"
    unfolding pb(2) [symmetric] by (rule less_trans)
  have pos: "0 < sqrt D"
    using lower by (rule powr_le_pos)
  have "binade (sqrt D) = b"
    using lower upper bb pos by (intro binade_eq) simp_all
  then have q: "quantum (sqrt D) = u"
    by (simp add: quantum_def u_def b_def)
  have "\<bar>sqrt D / u - real_of_int m\<bar> < 1 / 2"
  proof -
    have "sqrt D / u - real_of_int m = (sqrt D - s) / u"
      using u0 by (simp add: sm field_simps)
    then have "\<bar>sqrt D / u - real_of_int m\<bar> = \<bar>sqrt D - s\<bar> / u"
      using u0 by (simp add: abs_divide)
    with close u0 show ?thesis
      by (simp add: field_simps)
  qed
  then have "round_half_even (sqrt D / u) = m"
    by (rule rhe_near)
  then have "nearest_double (sqrt D) = s"
    using pos by (simp add: nearest_double_def q sm)
  then show ?thesis
    using ds(2,3) by (simp add: round_to_double_def Let_def)
qed

lemma is_double_dyadic:
  assumes "\<bar>k\<bar> \<le> 2 ^ 53" and "n \<le> 1074"
  shows "is_double (real_of_int k / 2 ^ n)"
proof -
  have e: "real_of_int k / 2 ^ n = real_of_int k * 2 powr real_of_int (- int n)"
    by (simp add: powr_minus powr_realpow divide_inverse)
  have "\<bar>real_of_int k\<bar> \<le> real_of_int (2 ^ 53)"
    using assms(1) by (simp only: of_int_abs [symmetric] of_int_le_iff)
  moreover have "\<bar>real_of_int k / 2 ^ n\<bar> = \<bar>real_of_int k\<bar> / 2 ^ n"
    by simp
  moreover have "\<bar>real_of_int k\<bar> / 2 ^ n \<le> \<bar>real_of_int k\<bar> / 1"
    by (intro divide_left_mono) simp_all
  ultimately have "\<bar>real_of_int k / 2 ^ n\<bar> \<le> 2 ^ 53"
    by simp
  moreover have "(2::real) ^ 53 < overflow_bound"
    by (simp add: overflow_bound_def)
  ultimately have "\<bar>real_of_int k * 2 powr real_of_int (- int n)\<bar> < overflow_bound"
    unfolding e [symmetric] by linarith
  from round_to_double_repr [OF assms(1) _ this] assms(2) show ?thesis
    unfolding is_double_def e by simp
qed

lemma is_double_int:
  assumes "\<bar>k\<bar> \<le> 2 ^ 53"
  shows "is_double (real_of_int k)"
  using is_double_dyadic [OF assms, of 0] by simp

lemma is_double_pow2:
  assumes "- 1074 \<le> e" and "e \<le> 1023"
  shows "is_double (2 powr real_of_int e)"
proof -
  have "(2::real) powr real_of_int e \<le> 2 powr 1023"
    using assms(2) by (intro powr_mono) simp_all
  moreover have "(2::real) powr 1023 < overflow_bound"
    by (simp add: overflow_bound_def)
  ultimately have "\<bar>real_of_int 1 * 2 powr real_of_int e\<bar> < overflow_bound"
    by simp
  from round_to_double_repr [OF _ assms(1) this] show ?thesis
    by (simp add: is_double_def)
qed

lemma is_double_round:
  assumes "is_double x"
  shows "round_to_double x = Fin x"
  using assms by (simp add: is_double_def)

lemma round_to_double_ge:
  assumes "is_double a" and "a \<le> x"
  shows "fle (Fin a) (round_to_double x)"
  using round_to_double_mono [OF assms(2)] assms(1) by (simp add: is_double_def)

lemma round_to_double_le:
  assumes "is_double a" and "x \<le> a"
  shows "fle (round_to_double x) (Fin a)"
  using round_to_double_mono [OF assms(2)] assms(1) by (simp add: is_double_def)

text \<open>A value between two doubles rounds to a finite value between them.\<close>

lemma round_to_double_between:
  assumes "is_double a" and "a \<le> x" and "is_double c" and "x \<le> c"
  obtains y where "round_to_double x = Fin y" and "a \<le> y" and "y \<le> c" and "is_double y"
proof -
  from round_to_double_ge [OF assms(1,2)] round_to_double_le [OF assms(3,4)]
  obtain y where y: "round_to_double x = Fin y" "a \<le> y" "y \<le> c"
    by (cases "round_to_double x") simp_all
  from round_to_double_idem [OF y(1)] have "is_double y"
    by (simp add: is_double_def)
  with y that show ?thesis
    by blast
qed

lemma is_double_one [simp]: "is_double 1"
  using is_double_int [of 1] by simp

lemma is_double_two [simp]: "is_double 2"
  using is_double_int [of 2] by simp


section \<open>The concentration ladder\<close>





















section \<open>Toggling the exclusion of a point\<close>

lemma toggle_excluded_member: "x \<in> toggle_excluded i S \<longleftrightarrow> (x \<in> S) \<noteq> (x = i)"
  by (auto simp: toggle_excluded_def)

lemma fold_toggle_excluded_member:
  "x \<in> fold toggle_excluded is S \<longleftrightarrow> (x \<in> S) \<noteq> odd (count (mset is) x)"
  by (induction "is" arbitrary: S) (auto simp: toggle_excluded_member)

text \<open>
  C9. Toggling the exclusion of a point twice gives back the set of excluded indices,
  and the set reached by a sequence of toggles depends only on the multiset of the
  toggled indices, not on their order.
\<close>

theorem toggle_excluded_involution_and_order:
  "toggle_excluded i (toggle_excluded i excluded) = excluded \<and>
   (mset is = mset js \<longrightarrow> fold toggle_excluded is excluded = fold toggle_excluded js excluded)"
proof
  show "toggle_excluded i (toggle_excluded i excluded) = excluded"
    by (auto simp: toggle_excluded_def)
  show "mset is = mset js \<longrightarrow> fold toggle_excluded is excluded = fold toggle_excluded js excluded"
    by (auto simp: fold_toggle_excluded_member)
qed

theorem toggle_excluded_involution_and_order_witness:
  "mset [1, 2, 1 :: nat] = mset [2, 1, 1] \<and>
   toggle_excluded 4 (toggle_excluded 4 {3, 4}) = {3, 4} \<and>
   fold toggle_excluded [1, 2, 1] {3} = fold toggle_excluded [2, 1, 1] {3}"
proof -
  have h: "mset [1, 2, 1 :: nat] = mset [2, 1, 1]"
    by simp
  from toggle_excluded_involution_and_order [of 4 "{3, 4}" "[1, 2, 1]" "[2, 1, 1]"]
  have a: "toggle_excluded 4 (toggle_excluded 4 {3, 4}) = {3, 4}"
    by blast
  from toggle_excluded_involution_and_order [of 1 "{3}" "[1, 2, 1]" "[2, 1, 1]"] h
  have b: "fold toggle_excluded [1, 2, 1] {3} = fold toggle_excluded [2, 1, 1] {3}"
    by blast
  from h a b show ?thesis
    by blast
qed

section \<open>The quadratic model without ligand\<close>

lemma np_clip_zero:
  "np_clip (Fin 0) (Fin 0) (Fin 1) = Fin 0"
  "np_clip NInf (Fin 0) (Fin 1) = Fin 0"
  by (simp_all add: np_clip_def np_maximum_def np_minimum_def)

lemma kd_zero_ligand:
  assumes "is_double T" and "0 < T" and "is_double k" and "0 \<le> k" and "is_double unbound"
      and "2 powr (- 511) \<le> T + k" and "T + k \<le> 2 powr 1022"
      and "isfinite (fl_sub (Fin bound) (Fin unbound))"
  shows "kd_fraction_bound (Fin 0) (Fin T) (Fin k) = Fin 0 \<and>
         kd_model [Fin 0] (Fin unbound) (Fin bound) (Fin k) (Fin T) = [Fin unbound] \<and>
         (isfinite (kd_discriminant (Fin 0) (Fin T) (Fin k)) \<longrightarrow>
            (\<exists>s. fl_add (fl_add (Fin 0) (Fin T)) (Fin k) = Fin s \<and>
                 kd_discriminant (Fin 0) (Fin T) (Fin k) = fl_mul (Fin s) (Fin s) \<and>
                 fl_sqrt (np_maximum (Fin 0) (kd_discriminant (Fin 0) (Fin T) (Fin k))) = Fin s) \<and>
            kd_numerator (Fin 0) (Fin T) (Fin k) = Fin 0)"
proof -
  have lo_d: "is_double (2 powr (- 511))"
    using is_double_pow2 [of "- 511"] by simp
  have hi_d: "is_double (2 powr 1022)"
    using is_double_pow2 [of 1022] by simp
  have top_d: "is_double (2 powr 1023)"
    using is_double_pow2 [of 1023] by simp
  from round_to_double_between [OF lo_d assms(6) hi_d assms(7)] obtain s where
    s: "round_to_double (T + k) = Fin s" "2 powr (- 511) \<le> s" "s \<le> 2 powr 1022" "is_double s"
    by blast
  have sum: "fl_add (fl_add (Fin 0) (Fin T)) (Fin k) = Fin s"
    using assms(1) s(1) by (simp add: fl_Fin is_double_round)
  have s0: "0 < s"
    using s(2) by (rule powr_le_pos)
  have "(2::real) powr 1023 = 2 * 2 powr 1022"
    by simp
  with assms(4,7) have "2 * T \<le> 2 powr 1023"
    by linarith
  moreover have "T \<le> 2 * T"
    using assms(2) by simp
  ultimately obtain y where y: "round_to_double (2 * T) = Fin y" "T \<le> y"
    using round_to_double_between [OF assms(1) _ top_d] by blast
  have two: "fl_mul (Fin 2) (Fin T) = Fin y" and y0: "0 < y"
    using y assms(2) by (simp_all add: fl_Fin)
  have z: "fl_mul (fl_mul (Fin 4) (Fin 0)) (Fin T) = Fin 0"
    by (simp add: fl_Fin)
  have sq: "fl_mul (Fin s) (Fin s) = round_to_double (s * s)"
    by (simp add: fl_Fin)
  have "fle (Fin 0) (round_to_double (s * s))"
    using s0 by (intro round_to_double_ge) simp_all
  then consider D where "round_to_double (s * s) = Fin D" "0 \<le> D" | "round_to_double (s * s) = PInf"
    by (cases "round_to_double (s * s)") simp_all
  then have frac: "kd_fraction_bound (Fin 0) (Fin T) (Fin k) = Fin 0 \<and>
         (isfinite (kd_discriminant (Fin 0) (Fin T) (Fin k)) \<longrightarrow>
            (\<exists>s. fl_add (fl_add (Fin 0) (Fin T)) (Fin k) = Fin s \<and>
                 kd_discriminant (Fin 0) (Fin T) (Fin k) = fl_mul (Fin s) (Fin s) \<and>
                 fl_sqrt (np_maximum (Fin 0) (kd_discriminant (Fin 0) (Fin T) (Fin k))) = Fin s) \<and>
            kd_numerator (Fin 0) (Fin T) (Fin k) = Fin 0)"
  proof cases
    case 1
    from round_to_double_idem [OF 1(1)] have DD: "round_to_double D = Fin D" .
    have d: "kd_discriminant (Fin 0) (Fin T) (Fin k) = Fin D"
      unfolding kd_discriminant_def sum z sq 1(1) by (simp add: fl_Fin DD)
    have r: "fl_sqrt (np_maximum (Fin 0) (Fin D)) = Fin s"
      using 1(2) sqrt_of_rounded_square [OF s(4) s(2) 1(1)]
      by (simp add: np_maximum_def fl_Fin)
    have n: "kd_numerator (Fin 0) (Fin T) (Fin k) = Fin 0"
      unfolding kd_numerator_def sum d r by (simp add: fl_Fin)
    have f: "kd_fraction_bound (Fin 0) (Fin T) (Fin k) = Fin 0"
      unfolding kd_fraction_bound_def n two using y0 by (simp add: fl_Fin np_clip_zero)
    from d r n f sum sq 1(1) show ?thesis
      by simp
  next
    case 2
    have d: "kd_discriminant (Fin 0) (Fin T) (Fin k) = PInf"
      unfolding kd_discriminant_def sum z sq 2 by (simp add: fl_sub_def fsub_def rounded_def)
    have n: "kd_numerator (Fin 0) (Fin T) (Fin k) = NInf"
      unfolding kd_numerator_def sum d
      by (simp add: np_maximum_def fl_sqrt_def fl_sub_def fsub_def rounded_def)
    have f: "kd_fraction_bound (Fin 0) (Fin T) (Fin k) = Fin 0"
      unfolding kd_fraction_bound_def n two using y0
      by (simp add: fl_div_def rounded_def np_clip_zero)
    from d f show ?thesis
      by simp
  qed
  from assms(8) obtain d where d: "fl_sub (Fin bound) (Fin unbound) = Fin d"
    by (cases "fl_sub (Fin bound) (Fin unbound)") simp_all
  have m: "kd_model [Fin 0] (Fin unbound) (Fin bound) (Fin k) (Fin T) = [Fin unbound]"
    unfolding kd_model_def d using assms(2,5) frac by (simp add: feq_def fl_Fin is_double_round)
  from frac m show ?thesis
    by blast
qed

text \<open>
  C5, as the code computes it in doubles. For a target concentration \<open>T > 0\<close> and a Kd
  parameter \<open>k \<ge> 0\<close> whose sum lies between \<open>2^-511\<close> and \<open>2^1022\<close> (so that its
  square does not underflow), and for unbound and bound levels whose difference does
  not overflow: at ligand concentration 0 the bound fraction is 0 and the model returns
  exactly the unbound level. When moreover the square does not overflow, the
  discriminant is the rounded square of the rounded sum \<open>T + k\<close>, its rounded square
  root is that sum again, and the numerator is 0.
\<close>

theorem kd_model_at_zero_ligand:
  assumes "is_double T" and "0 < T" and "is_double k" and "0 \<le> k" and "is_double unbound"
      and "2 powr (- 511) \<le> T + k" and "T + k \<le> 2 powr 1022"
      and "isfinite (fl_sub (Fin bound) (Fin unbound))"
  shows "kd_fraction_bound (Fin 0) (Fin T) (Fin k) = Fin 0 \<and>
         kd_model [Fin 0] (Fin unbound) (Fin bound) (Fin k) (Fin T) = [Fin unbound] \<and>
         (isfinite (kd_discriminant (Fin 0) (Fin T) (Fin k)) \<longrightarrow>
            (\<exists>s. fl_add (fl_add (Fin 0) (Fin T)) (Fin k) = Fin s \<and>
                 kd_discriminant (Fin 0) (Fin T) (Fin k) = fl_mul (Fin s) (Fin s) \<and>
                 fl_sqrt (np_maximum (Fin 0) (kd_discriminant (Fin 0) (Fin T) (Fin k))) = Fin s) \<and>
            kd_numerator (Fin 0) (Fin T) (Fin k) = Fin 0)"
  using assms by (rule kd_zero_ligand)

theorem kd_model_at_zero_ligand_witness:
  "is_double (1 / 2 ^ 20) \<and> (0::real) < 1 / 2 ^ 20 \<and> is_double (1 / 2 ^ 24) \<and>
   (0::real) \<le> 1 / 2 ^ 24 \<and> is_double (7 / 8) \<and>
   2 powr (- 511) \<le> (1 / 2 ^ 20 + 1 / 2 ^ 24 :: real) \<and>
   (1 / 2 ^ 20 + 1 / 2 ^ 24 :: real) \<le> 2 powr 1022 \<and>
   isfinite (fl_sub (Fin (9 / 8)) (Fin (7 / 8))) \<and>
   isfinite (kd_discriminant (Fin 0) (Fin (1 / 2 ^ 20)) (Fin (1 / 2 ^ 24))) \<and>
   kd_numerator (Fin 0) (Fin (1 / 2 ^ 20)) (Fin (1 / 2 ^ 24)) = Fin 0 \<and>
   kd_fraction_bound (Fin 0) (Fin (1 / 2 ^ 20)) (Fin (1 / 2 ^ 24)) = Fin 0 \<and>
   kd_model [Fin 0] (Fin (7 / 8)) (Fin (9 / 8)) (Fin (1 / 2 ^ 24)) (Fin (1 / 2 ^ 20)) = [Fin (7 / 8)]"
proof -
  have dT: "is_double (1 / 2 ^ 20)" and dk: "is_double (1 / 2 ^ 24)" and du: "is_double (7 / 8)"
    using is_double_dyadic [of 1 20] is_double_dyadic [of 1 24] is_double_dyadic [of 7 3]
    by simp_all
  have ds: "is_double (17 / 2 ^ 24)" and dq: "is_double (289 / 2 ^ 48)" and dd: "is_double (1 / 4)"
    using is_double_dyadic [of 17 24] is_double_dyadic [of 289 48] is_double_dyadic [of 1 2]
    by simp_all
  have p: "(0::real) < 1 / 2 ^ 20" "(0::real) \<le> 1 / 2 ^ 24"
    by simp_all
  have "(2::real) powr (- 511) \<le> 2 powr (- 20)"
    by (intro powr_mono) simp_all
  also have "(2::real) powr (- 20) = 1 / 2 ^ 20"
    by (simp add: powr_neg_numeral)
  finally have lo: "2 powr (- 511) \<le> (1 / 2 ^ 20 + 1 / 2 ^ 24 :: real)"
    by simp
  have hi: "(1 / 2 ^ 20 + 1 / 2 ^ 24 :: real) \<le> 2 powr 1022"
    by simp
  have f: "isfinite (fl_sub (Fin (9 / 8)) (Fin (7 / 8)))"
    using is_double_round [OF dd] by (simp add: fl_Fin)
  have d: "isfinite (kd_discriminant (Fin 0) (Fin (1 / 2 ^ 20)) (Fin (1 / 2 ^ 24)))"
    using is_double_round [OF dT] is_double_round [OF ds] is_double_round [OF dq]
    by (simp add: kd_discriminant_def fl_Fin)
  from kd_model_at_zero_ligand [OF dT p(1) dk p(2) du lo hi f] d
  have "kd_numerator (Fin 0) (Fin (1 / 2 ^ 20)) (Fin (1 / 2 ^ 24)) = Fin 0 \<and>
   kd_fraction_bound (Fin 0) (Fin (1 / 2 ^ 20)) (Fin (1 / 2 ^ 24)) = Fin 0 \<and>
   kd_model [Fin 0] (Fin (7 / 8)) (Fin (9 / 8)) (Fin (1 / 2 ^ 24)) (Fin (1 / 2 ^ 20)) = [Fin (7 / 8)]"
    by blast
  with dT dk du p lo hi f d show ?thesis
    by blast
qed

text \<open>
  With the target concentration \<open>2^-600\<close> and \<open>k = 0\<close> the square \<open>2^-1200\<close> underflows
  to zero, so the numerator is \<open>T\<close>, the bound fraction is 0.5, and the model returns
  1.5 for the unbound level 1 and the bound level 2. With the unbound level \<open>-2^1023\<close>
  and the bound level \<open>2^1023\<close> their difference overflows, and the model returns
  \<open>nan\<close> although the bound fraction is 0.
\<close>

theorem kd_model_underflow_counterexample:
  "is_double (2 powr (- 600)) \<and> (0::real) < 2 powr (- 600) \<and>
   kd_fraction_bound (Fin 0) (Fin (2 powr (- 600))) (Fin 0) = Fin (1 / 2) \<and>
   kd_model [Fin 0] (Fin 1) (Fin 2) (Fin 0) (Fin (2 powr (- 600))) = [Fin (3 / 2)] \<and>
   is_double (2 powr 1023) \<and>
   kd_model [Fin 0] (Fin (- (2 powr 1023))) (Fin (2 powr 1023)) (Fin 0) (Fin 1) = [NaN]"
proof -
  define T :: real where "T = 2 powr (- 600)"
  have dT: "is_double T"
    using is_double_pow2 [of "- 600"] by (simp add: T_def)
  have T0: "0 < T"
    by (simp add: T_def)
  have "2 * T = 2 powr (- 599)"
    unfolding T_def using powr_add [of "2::real" 1 "- 600"] by simp
  then have d2T: "is_double (2 * T)"
    using is_double_pow2 [of "- 599"] by simp
  have "T * T = 2 powr (- 1200)"
    unfolding T_def powr_add [symmetric] by simp
  also have "\<dots> \<le> 2 powr (- 1075)"
    by (intro powr_mono) simp_all
  finally have TT: "round_to_double (T * T) = Fin 0"
    using T0 by (intro round_to_double_tiny) simp
  have dh: "is_double (1 / 2)" and d1: "is_double 1" and d32: "is_double (3 / 2)"
    using is_double_dyadic [of 1 1] is_double_int [of 1] is_double_dyadic [of 3 1]
    by simp_all
  have sum: "fl_add (fl_add (Fin 0) (Fin T)) (Fin 0) = Fin T"
    using is_double_round [OF dT] by (simp add: fl_Fin)
  have disc: "kd_discriminant (Fin 0) (Fin T) (Fin 0) = Fin 0"
    unfolding kd_discriminant_def sum by (simp add: fl_Fin TT)
  have num: "kd_numerator (Fin 0) (Fin T) (Fin 0) = Fin T"
    unfolding kd_numerator_def sum disc
    using is_double_round [OF dT] by (simp add: np_maximum_def fl_Fin)
  have frac: "kd_fraction_bound (Fin 0) (Fin T) (Fin 0) = Fin (1 / 2)"
    unfolding kd_fraction_bound_def num
    using is_double_round [OF d2T] is_double_round [OF dh] T0
    by (simp add: fl_Fin np_clip_def np_maximum_def np_minimum_def)
  have model: "kd_model [Fin 0] (Fin 1) (Fin 2) (Fin 0) (Fin T) = [Fin (3 / 2)]"
    using is_double_round [OF d1] is_double_round [OF dh] is_double_round [OF d32] T0
    by (simp add: kd_model_def frac feq_def fl_Fin)
  have top: "is_double (2 powr 1023)"
    using is_double_pow2 [of 1023] by simp
  have lo: "(2::real) powr (- 511) \<le> 1 + 0"
  proof -
    have "(2::real) powr (- 511) \<le> 2 powr 0"
      by (intro powr_mono) simp_all
    then show ?thesis
      by simp
  qed
  have hi: "(1::real) + 0 \<le> 2 powr 1022"
    by simp
  have fin: "isfinite (fl_sub (Fin 1) (Fin 0))"
    using is_double_round [OF d1] by (simp add: fl_Fin)
  from kd_zero_ligand [OF d1 _ is_double_zero _ is_double_zero lo hi fin]
  have f1: "kd_fraction_bound (Fin 0) (Fin 1) (Fin 0) = Fin 0"
    by simp
  have "overflow_bound \<le> 2 powr 1023 - - (2 powr 1023)"
    by (simp add: overflow_bound_def)
  then have "round_to_double (2 powr 1023 - - (2 powr 1023)) = PInf"
    by (rule round_to_double_huge)
  then have inf: "fl_sub (Fin (2 powr 1023)) (Fin (- (2 powr 1023))) = PInf"
    by (simp only: fl_Fin)
  have nan: "kd_model [Fin 0] (Fin (- (2 powr 1023))) (Fin (2 powr 1023)) (Fin 0) (Fin 1) = [NaN]"
    using inf
    by (simp add: kd_model_def f1 feq_def fl_mul_def fl_add_def rounded_def signed_inf_def)
  from dT T0 frac model top nan show ?thesis
    unfolding T_def by blast
qed

section \<open>Formatting a concentration\<close>

text \<open>
  C8. With the label Kd, the molar value 1e-6 is printed as \<open>Kd = 1000.00 nM\<close> under the
  unit nM and as \<open>Kd = 1.00e-06 M\<close> under the unit M; an undefined value is printed as
  the label followed by \<open>= NaN\<close> under every unit; and a unit selector that is none of
  the five known ones prints what the unit M prints.
\<close>

theorem format_molar_conc_units:
  "format_molar_conc (self\<lparr>display_unit := ''nM''\<rparr>) (Fin (1 / 10 ^ 6)) ''Kd'' = ''Kd = 1000.00 nM'' \<and>
   format_molar_conc (self\<lparr>display_unit := ''M''\<rparr>) (Fin (1 / 10 ^ 6)) ''Kd'' = ''Kd = 1.00e-06 M'' \<and>
   format_molar_conc self NaN label = label @ '' = NaN'' \<and>
   (display_unit self \<notin> {''M'', ''mM'', micro_molar, ''nM'', ''pM''} \<longrightarrow>
      format_molar_conc self conc_molar label
        = format_molar_conc (self\<lparr>display_unit := ''M''\<rparr>) conc_molar label \<and>
      (\<not> isnan conc_molar \<longrightarrow>
         format_molar_conc self conc_molar label = label @ '' = '' @ fmt_2e conc_molar @ '' M''))"
proof -
  have f: "fmt_2f_real 1000 = ''1000.00''"
    by (simp add: fmt_2f_real_def round_half_even_def two_digits_def show_nat.simps)
  have e: "fmt_2e_real (1 / 10 ^ 6) = ''1.00e-06''"
    by (simp add: fmt_2e_real_def decimal_exponent_def scale10_def round_half_even_def
          two_digits_def show_nat.simps)
  have n: "format_molar_conc (self\<lparr>display_unit := ''nM''\<rparr>) (Fin (1 / 10 ^ 6)) ''Kd''
             = ''Kd = 1000.00 nM''"
    by (simp add: format_molar_conc_def micro_molar_def f)
  have m: "format_molar_conc (self\<lparr>display_unit := ''M''\<rparr>) (Fin (1 / 10 ^ 6)) ''Kd''
             = ''Kd = 1.00e-06 M''"
    using e by (simp add: format_molar_conc_def)
  have u: "format_molar_conc self NaN label = label @ '' = NaN''"
    by (simp add: format_molar_conc_def)
  have d: "display_unit self \<notin> {''M'', ''mM'', micro_molar, ''nM'', ''pM''} \<longrightarrow>
      format_molar_conc self conc_molar label
        = format_molar_conc (self\<lparr>display_unit := ''M''\<rparr>) conc_molar label \<and>
      (\<not> isnan conc_molar \<longrightarrow>
         format_molar_conc self conc_molar label = label @ '' = '' @ fmt_2e conc_molar @ '' M'')"
    by (simp add: format_molar_conc_def Let_def)
  from n m u d show ?thesis
    by blast
qed

theorem format_molar_conc_units_witness:
  "display_unit (initial_analyzer\<lparr>display_unit := ''kM''\<rparr>) \<notin> {''M'', ''mM'', micro_molar, ''nM'', ''pM''} \<and>
   \<not> isnan (Fin (1 / 10 ^ 6)) \<and>
   format_molar_conc (initial_analyzer\<lparr>display_unit := ''kM''\<rparr>) (Fin (1 / 10 ^ 6)) ''Kd''
     = ''Kd = '' @ fmt_2e (Fin (1 / 10 ^ 6)) @ '' M''"
proof -
  have h: "display_unit (initial_analyzer\<lparr>display_unit := ''kM''\<rparr>)
             \<notin> {''M'', ''mM'', micro_molar, ''nM'', ''pM''}"
    by (simp add: micro_molar_def)
  have n: "\<not> isnan (Fin (1 / 10 ^ 6))"
    by simp
  from format_molar_conc_units
         [of "initial_analyzer\<lparr>display_unit := ''kM''\<rparr>" "''Kd''" "Fin (1 / 10 ^ 6)"] h n
  have "format_molar_conc (initial_analyzer\<lparr>display_unit := ''kM''\<rparr>) (Fin (1 / 10 ^ 6)) ''Kd''
          = ''Kd'' @ '' = '' @ fmt_2e (Fin (1 / 10 ^ 6)) @ '' M''"
    by blast
  with h n show ?thesis
    by simp
qed

section \<open>The trace reducer\<close>














section \<open>The replicate aggregator\<close>











section \<open>Too few concentrations for a fit\<close>





section \<open>Seeding the fit\<close>

lemma np_insort_Fin: "np_insort (Fin x) (map Fin ys) = map Fin (insort x ys)"
  by (induction ys) simp_all

lemma np_sort_Fin: "np_sort (map Fin xs) = map Fin (sort xs)"
  by (induction xs) (simp_all add: np_sort_def sort_key_def np_insort_Fin del: map_map)

lemma list_ex_isnan_Fin: "\<not> list_ex isnan (map Fin xs)"
  by (induction xs) simp_all

lemma np_median_Fin:
  assumes "xs \<noteq> []"
  shows "np_median (map Fin xs) = Fin (median xs)"
proof -
  from assms have n: "0 < length xs"
    by simp
  then have "length xs div 2 < length (sort xs)" "length xs div 2 - 1 < length (sort xs)"
    by (simp, simp add: less_imp_diff_less)
  then show ?thesis
    using assms
    by (simp add: np_median_def list_ex_isnan_Fin np_sort_Fin median_def Let_def)
qed

lemma foldl_np_minimum_Fin: "foldl np_minimum (Fin y) (map Fin ys) = Fin (fold min ys y)"
  by (induction ys arbitrary: y) (simp_all add: np_minimum_def min_def)

lemma foldl_np_maximum_Fin: "foldl np_maximum (Fin y) (map Fin ys) = Fin (fold max ys y)"
  by (induction ys arbitrary: y) (simp_all add: np_maximum_def max_def)

lemma np_min_Fin: "xs \<noteq> [] \<Longrightarrow> np_min (map Fin xs) = Inr (Fin (Min (set xs)))"
  by (cases xs) (simp_all add: np_min_def foldl_np_minimum_Fin Min.set_eq_fold [symmetric])

lemma np_max_Fin: "xs \<noteq> [] \<Longrightarrow> np_max (map Fin xs) = Inr (Fin (Max (set xs)))"
  by (cases xs) (simp_all add: np_max_def foldl_np_maximum_Fin Max.set_eq_fold [symmetric])

lemma median_between:
  assumes "xs \<noteq> []"
  shows "Min (set xs) \<le> median xs \<and> median xs \<le> Max (set xs)"
proof -
  have b: "Min (set xs) \<le> sort xs ! i \<and> sort xs ! i \<le> Max (set xs)" if "i < length xs" for i
  proof -
    from that have "sort xs ! i \<in> set (sort xs)"
      by (intro nth_mem) simp
    then have "sort xs ! i \<in> set xs"
      by simp
    then show ?thesis
      by simp
  qed
  from assms have "length xs div 2 < length xs" "length xs div 2 - 1 < length xs"
    by (simp, simp add: less_imp_diff_less)
  from b [OF this(1)] b [OF this(2)] show ?thesis
    by (simp add: median_def Let_def field_simps)
qed

lemma map_np_log10_Fin: "\<forall>c\<in>set cs. 0 < c \<Longrightarrow> map np_log10 cs = map Fin (map (log 10) cs)"
  by (induction cs) (simp_all add: np_log10_def)

lemma hill_setup_Fin:
  assumes "ls \<noteq> []"
  shows "hill_setup seed (map Fin ls) =
           Inr ([p0_bottom_avg seed, p0_top_avg seed, Fin (median ls), Fin 1],
                [bounds_lower_fnorm_avg seed ! 0, bounds_lower_fnorm_avg seed ! 1,
                 Fin (Min (set ls) - 2), Fin (1 / 10)],
                [bounds_upper_fnorm_avg seed ! 0, bounds_upper_fnorm_avg seed ! 1,
                 Fin (Max (set ls) + 2), Fin 5])"
  using assms by (simp add: hill_setup_def np_min_Fin np_max_Fin np_median_Fin fsub_def)

lemma dr_setup_Fin:
  assumes "ls \<noteq> []"
  shows "dr_setup seed (map Fin ls) =
           Inr ([p0_bottom_avg seed, p0_top_avg seed, Fin (median ls), Fin 1],
                [bounds_lower_fnorm_avg seed ! 0, bounds_lower_fnorm_avg seed ! 1,
                 Fin (Min (set ls) - 2), Fin (- 5)],
                [bounds_upper_fnorm_avg seed ! 0, bounds_upper_fnorm_avg seed ! 1,
                 Fin (Max (set ls) + 2), Fin 5])"
  using assms by (simp add: dr_setup_def np_min_Fin np_max_Fin np_median_Fin fsub_def)

lemma kd_setup_Fin:
  assumes "cs \<noteq> []"
  shows "kd_setup seed cs target =
           ([p0_bottom_avg seed, p0_top_avg seed,
             Fin (max (1 / 10 ^ 9) (min (median cs) (min target (1 / 10 ^ 6))))],
            [bounds_lower_fnorm_avg seed ! 0, bounds_lower_fnorm_avg seed ! 1, Fin (1 / 10 ^ 12)],
            [bounds_upper_fnorm_avg seed ! 0, bounds_upper_fnorm_avg seed ! 1, Fin (1 / 10 ^ 2)])"
  using assms
  by (simp add: kd_setup_def np_median_Fin Let_def py_min_def py_max_def flt_def min_def max_def)

lemma fle_refl: "a \<noteq> NaN \<Longrightarrow> fle a a"
  by (cases a) simp_all

lemma fle_trans: "fle a b \<Longrightarrow> fle b c \<Longrightarrow> fle a c"
  by (cases a; cases b; cases c) simp_all

lemma fle_antisym: "fle a b \<Longrightarrow> fle b a \<Longrightarrow> a = b"
  by (cases a; cases b) simp_all

lemma fle_total: "a \<noteq> NaN \<Longrightarrow> b \<noteq> NaN \<Longrightarrow> fle a b \<or> fle b a"
  by (cases a; cases b) auto

lemma fle_not_nan: "fle a b \<Longrightarrow> a \<noteq> NaN \<and> b \<noteq> NaN"
  by (cases a; cases b) simp_all

lemma np_clip_within:
  assumes "fle lo a" and "fle a hi"
  shows "np_clip a lo hi = a"
proof -
  from assms have n: "\<not> isnan a" "\<not> isnan lo" "\<not> isnan hi"
    by (cases a; cases lo; cases hi; simp)+
  have "np_maximum a lo = a"
    using assms(1) n fle_antisym [of a lo] by (auto simp: np_maximum_def)
  then show ?thesis
    using assms(2) n by (simp add: np_clip_def np_minimum_def)
qed

lemma py_min_le:
  assumes "b \<noteq> NaN"
  shows "fle (py_min (Fin 0) b) (Fin 0)" and "fle (py_min (Fin 0) b) b"
  using assms fle_total [of "Fin 0" b] by (auto simp: py_min_def flt_def fle_refl)

lemma py_max_ge:
  assumes "b \<noteq> NaN"
  shows "fle (Fin 3) (py_max (Fin 3) b)" and "fle b (py_max (Fin 3) b)"
  using assms fle_total [of "Fin 3" b] by (auto simp: py_max_def flt_def fle_refl)

text \<open>The double that the literal \<open>0.01\<close> denotes.\<close>

lemma round_hundredth:
  obtains c where "round_to_double (1 / 100) = Fin c" and "5 / 512 \<le> c" and "c \<le> 1 / 64"
proof -
  have a: "is_double (5 / 512)" and b: "is_double (1 / 64)"
    using is_double_dyadic [of 5 9] is_double_dyadic [of 1 6] by simp_all
  from round_to_double_between [OF a _ b, of "1 / 100"] that show ?thesis
    by auto
qed

lemma binade_le:
  assumes "x \<noteq> 0" and "\<bar>x\<bar> < 2 powr (real_of_int e + 1)"
  shows "binade x \<le> max e (- 1022)"
proof -
  have "log 2 \<bar>x\<bar> < real_of_int e + 1"
    using assms by (simp add: log_less_iff)
  then have "\<lfloor>log 2 \<bar>x\<bar>\<rfloor> \<le> e"
    by linarith
  then show ?thesis
    by (simp add: binade_def)
qed

text \<open>Below \<open>2^47\<close> the doubles are at most \<open>2^-6\<close> apart.\<close>

lemma nearest_double_close:
  assumes "\<bar>x\<bar> < 2 ^ 47"
  shows "\<bar>nearest_double x - x\<bar> \<le> 1 / 128"
proof (cases "x = 0")
  case False
  have "\<bar>x\<bar> < 2 powr (real_of_int 46 + 1)"
    using assms by simp
  from binade_le [OF False this] have "binade x \<le> 46"
    by simp
  then have "real_of_int (binade x) - 52 \<le> - 6"
    by simp
  then have "quantum x \<le> 2 powr (- 6)"
    unfolding quantum_def by (intro powr_mono) simp_all
  also have "(2::real) powr (- 6) = 1 / 64"
    by (simp add: powr_neg_numeral)
  finally have "quantum x / 2 \<le> 1 / 128"
    by simp
  with nearest_double_error [of x] show ?thesis
    by linarith
qed simp

lemma fle_round_to_double:
  assumes "a \<le> nearest_double x" and "- overflow_bound < a"
  shows "fle (Fin a) (round_to_double x)"
  using assms by (auto simp: round_to_double_def Let_def)

lemma round_to_double_fle:
  assumes "nearest_double x \<le> a" and "a < overflow_bound"
  shows "fle (round_to_double x) (Fin a)"
  using assms by (auto simp: round_to_double_def Let_def)

lemma moderate_bound:
  assumes "\<bar>a\<bar> \<le> 2 ^ 46"
  shows "- overflow_bound < a" and "a < overflow_bound"
proof -
  have "(2::real) ^ 46 < overflow_bound"
    by (simp add: overflow_bound_def)
  with assms show "- overflow_bound < a" and "a < overflow_bound"
    by linarith+
qed

text \<open>
  Adding a margin from \<open>5/512\<close> to \<open>1/2\<close> to a double, or to a real of magnitude at
  most \<open>2^46\<close>, does not round below it, and subtracting one does not round above it.
\<close>

lemma round_margin_above:
  assumes "is_double a \<or> \<bar>a\<bar> \<le> 2 ^ 46" and "5 / 512 \<le> d" and "d \<le> 1 / 2"
  shows "fle (Fin a) (round_to_double (a + d))"
  using assms(1)
proof
  assume "is_double a"
  moreover have "a \<le> a + d"
    using assms(2) by simp
  ultimately show ?thesis
    by (rule round_to_double_ge)
next
  assume m: "\<bar>a\<bar> \<le> 2 ^ 46"
  with assms(2,3) have "\<bar>a + d\<bar> < 2 ^ 47"
    by simp
  from nearest_double_close [OF this] assms(2) have "a \<le> nearest_double (a + d)"
    by linarith
  then show ?thesis
    using moderate_bound(1) [OF m] by (rule fle_round_to_double)
qed

lemma round_margin_below:
  assumes "is_double a \<or> \<bar>a\<bar> \<le> 2 ^ 46" and "5 / 512 \<le> d" and "d \<le> 1 / 2"
  shows "fle (round_to_double (a - d)) (Fin a)"
  using assms(1)
proof
  assume "is_double a"
  moreover have "a - d \<le> a"
    using assms(2) by simp
  ultimately show ?thesis
    by (rule round_to_double_le)
next
  assume m: "\<bar>a\<bar> \<le> 2 ^ 46"
  with assms(2,3) have "\<bar>a - d\<bar> < 2 ^ 47"
    by simp
  from nearest_double_close [OF this] assms(2) have "nearest_double (a - d) \<le> a"
    by linarith
  then show ?thesis
    using moderate_bound(2) [OF m] by (rule round_to_double_fle)
qed

text \<open>Below \<open>2^46\<close> the nudge of 0.01 is not absorbed.\<close>

lemma nudge_kept:
  assumes "\<bar>mx\<bar> \<le> 2 ^ 46" and "5 / 512 \<le> c" and "c \<le> 1 / 64"
  shows "round_to_double (mx + c) \<noteq> Fin mx"
proof -
  from assms have "\<bar>mx + c\<bar> < 2 ^ 47"
    by simp
  from nearest_double_close [OF this] assms(2) have "mx < nearest_double (mx + c)"
    by linarith
  then show ?thesis
    by (auto simp: round_to_double_def Let_def)
qed

lemma seed_fnorm_finite:
  assumes "is_double mn \<or> \<bar>mn\<bar> \<le> 2 ^ 46" and "is_double mx \<or> \<bar>mx\<bar> \<le> 2 ^ 46" and "mn \<le> mx"
  defines "seed \<equiv> seed_fnorm (Fin mn) (Fin mx)"
  defines "nudged \<equiv> fl_add (Fin mx) (round_to_double (1 / 100))"
  shows "p0_bottom_avg seed = Fin mn"
    and "p0_top_avg seed = (if mn = mx then nudged else Fin mx)"
    and "bounds_lower_fnorm_avg seed =
           [py_min (Fin 0) (round_to_double (mn - 1 / 2)), py_min (Fin 0) (round_to_double (mn - 1 / 2))]"
    and "bounds_upper_fnorm_avg seed =
           [py_max (Fin 3) (round_to_double (mx + 1 / 2)), py_max (Fin 3) (round_to_double (mx + 1 / 2))]"
    and "fle (bounds_lower_fnorm_avg seed ! 0) (p0_bottom_avg seed)"
    and "fle (p0_bottom_avg seed) (bounds_upper_fnorm_avg seed ! 0)"
    and "fle (bounds_lower_fnorm_avg seed ! 1) (p0_top_avg seed)"
    and "fle (p0_top_avg seed) (bounds_upper_fnorm_avg seed ! 1)"
    and "fle (p0_bottom_avg seed) (p0_top_avg seed)"
    and "flt (p0_bottom_avg seed) (p0_top_avg seed) \<longleftrightarrow> mn < mx \<or> nudged \<noteq> Fin mx"
    and "\<bar>mx\<bar> \<le> 2 ^ 46 \<Longrightarrow> flt (p0_bottom_avg seed) (p0_top_avg seed)"
proof -
  obtain c where c: "round_to_double (1 / 100) = Fin c" "5 / 512 \<le> c" "c \<le> 1 / 64"
    by (rule round_hundredth)
  define lo where "lo = py_min (Fin 0) (round_to_double (mn - 1 / 2))"
  define up where "up = py_max (Fin 3) (round_to_double (mx + 1 / 2))"
  define top where "top = (if mn = mx then nudged else Fin mx)"
  have n: "nudged = round_to_double (mx + c)"
    by (simp add: nudged_def c(1) fl_Fin)
  have "fle (round_to_double (mn - 1 / 2)) (Fin mn)"
    using assms(1) by (rule round_margin_below) simp_all
  with py_min_le(2) [of "round_to_double (mn - 1 / 2)"] have lo_mn: "fle lo (Fin mn)"
    unfolding lo_def by (metis fle_trans round_to_double_not_nan)
  have "fle (Fin mx) (round_to_double (mx + 1 / 2))"
    using assms(2) by (rule round_margin_above) simp_all
  with py_max_ge(2) [of "round_to_double (mx + 1 / 2)"] have mx_up: "fle (Fin mx) up"
    unfolding up_def by (metis fle_trans round_to_double_not_nan)
  have mn_mx: "fle (Fin mn) (Fin mx)"
    using assms(3) by simp
  have mx_n: "fle (Fin mx) nudged"
    unfolding n using assms(2) c(2,3) by (intro round_margin_above) simp_all
  have "fle nudged (round_to_double (mx + 1 / 2))"
    unfolding n using c(3) by (intro round_to_double_mono) simp
  with py_max_ge(2) [of "round_to_double (mx + 1 / 2)"] have n_up: "fle nudged up"
    unfolding up_def by (metis fle_trans round_to_double_not_nan)
  have mx_top: "fle (Fin mx) top"
    using mx_n by (simp add: top_def)
  have top_up: "fle top up"
    using n_up mx_up by (simp add: top_def)
  have b: "np_clip (Fin mn) lo up = Fin mn"
    by (rule np_clip_within [OF lo_mn fle_trans [OF mn_mx mx_up]])
  have t: "np_clip top lo up = top"
    by (rule np_clip_within [OF fle_trans [OF lo_mn fle_trans [OF mn_mx mx_top]] top_up])
  have seed: "seed = \<lparr>p0_bottom_avg = Fin mn, p0_top_avg = top,
                       bounds_lower_fnorm_avg = [lo, lo], bounds_upper_fnorm_avg = [up, up]\<rparr>"
  proof -
    have "seed = \<lparr>p0_bottom_avg = np_clip (Fin mn) lo up, p0_top_avg = np_clip top lo up,
                       bounds_lower_fnorm_avg = [lo, lo], bounds_upper_fnorm_avg = [up, up]\<rparr>"
      using assms(3)
      by (simp add: seed_def seed_fnorm_def Let_def flt_def feq_def fl_Fin lo_def up_def top_def
            nudged_def)
    then show ?thesis
      by (simp only: b t)
  qed
  show "p0_bottom_avg seed = Fin mn"
    by (simp add: seed)
  show "p0_top_avg seed = (if mn = mx then nudged else Fin mx)"
    by (simp add: seed top_def)
  show "bounds_lower_fnorm_avg seed =
           [py_min (Fin 0) (round_to_double (mn - 1 / 2)), py_min (Fin 0) (round_to_double (mn - 1 / 2))]"
    by (simp add: seed lo_def)
  show "bounds_upper_fnorm_avg seed =
           [py_max (Fin 3) (round_to_double (mx + 1 / 2)), py_max (Fin 3) (round_to_double (mx + 1 / 2))]"
    by (simp add: seed up_def)
  show "fle (bounds_lower_fnorm_avg seed ! 0) (p0_bottom_avg seed)"
    using lo_mn by (simp add: seed)
  show "fle (p0_bottom_avg seed) (bounds_upper_fnorm_avg seed ! 0)"
    using fle_trans [OF mn_mx mx_up] by (simp add: seed)
  show "fle (bounds_lower_fnorm_avg seed ! 1) (p0_top_avg seed)"
    using fle_trans [OF lo_mn fle_trans [OF mn_mx mx_top]] by (simp add: seed)
  show "fle (p0_top_avg seed) (bounds_upper_fnorm_avg seed ! 1)"
    using top_up by (simp add: seed)
  show "fle (p0_bottom_avg seed) (p0_top_avg seed)"
    using fle_trans [OF mn_mx mx_top] by (simp add: seed)
  show iff: "flt (p0_bottom_avg seed) (p0_top_avg seed) \<longleftrightarrow> mn < mx \<or> nudged \<noteq> Fin mx"
    using assms(3) mx_n by (auto simp: seed top_def flt_def)
  show "flt (p0_bottom_avg seed) (p0_top_avg seed)" if "\<bar>mx\<bar> \<le> 2 ^ 46"
    unfolding iff n using nudge_kept [OF that c(2,3)] by simp
qed

text \<open>
  C10, as the code computes it in doubles. For an aggregated dataset of at least three
  points whose mean Fnorm values are finite (doubles, as the program has them, or reals
  of magnitude at most \<open>2^46\<close>, as exact means are) and whose concentrations are
  positive, and for each of the three model choices, the fitter is called with an
  initial vector that lies within the bounds it is called with, component by component:
  the plateau bounds are \<open>min(0, min_fnorm - 0.5)\<close> and \<open>max(3, max_fnorm + 0.5)\<close>
  with the difference and the sum rounded, the bounds of the logarithmic affinity are
  the least logarithmic concentration minus 2 and the greatest plus 2, the slope bounds
  are 0.1 and 5 (Hill) or -5 and 5 (dose-response), the Kd bounds are 1e-12 and 1e-2.
  The seeded bottom is the least mean. The seeded top is the greatest mean, or, when all
  means are equal, the rounded sum of that mean and 0.01, which the clamping leaves as
  it is. The bottom is never above the top; it is strictly below it exactly when the
  means differ or the rounding does not absorb the nudge, and so whenever the greatest
  mean has a magnitude of at most \<open>2^46\<close>.
\<close>

theorem seeds_within_bounds:
  assumes "3 \<le> length fs" and "length cs = length fs" and "\<forall>c\<in>set cs. 0 < c"
      and "\<forall>f\<in>set fs. is_double f \<or> \<bar>f\<bar> \<le> 2 ^ 46"
  shows "\<exists>p0 lower upper.
           within_bounds p0 lower upper \<and>
           p0 ! 0 = Fin (Min (set fs)) \<and>
           p0 ! 1 = (if Min (set fs) = Max (set fs)
                     then fl_add (Fin (Max (set fs))) (round_to_double (1 / 100))
                     else Fin (Max (set fs))) \<and>
           fle (p0 ! 0) (p0 ! 1) \<and>
           (flt (p0 ! 0) (p0 ! 1) \<longleftrightarrow>
              Min (set fs) < Max (set fs) \<or>
              fl_add (Fin (Max (set fs))) (round_to_double (1 / 100)) \<noteq> Fin (Max (set fs))) \<and>
           (\<bar>Max (set fs)\<bar> \<le> 2 ^ 46 \<longrightarrow> flt (p0 ! 0) (p0 ! 1)) \<and>
           lower ! 0 = py_min (Fin 0) (round_to_double (Min (set fs) - 1 / 2)) \<and>
           lower ! 1 = py_min (Fin 0) (round_to_double (Min (set fs) - 1 / 2)) \<and>
           upper ! 0 = py_max (Fin 3) (round_to_double (Max (set fs) + 1 / 2)) \<and>
           upper ! 1 = py_max (Fin 3) (round_to_double (Max (set fs) + 1 / 2)) \<and>
           (model_choice self = ''Hill'' \<longrightarrow>
              fit_attempt cf self cs (map np_log10 cs) (map Fin fs) =
                store_fit pow10 ''Hill Model''
                  (cf Binding_curve (map np_log10 cs) (map Fin fs) p0 (lower, upper)) \<and>
              length p0 = 4 \<and>
              lower ! 2 = Fin (Min (log 10 ` set cs) - 2) \<and>
              upper ! 2 = Fin (Max (log 10 ` set cs) + 2) \<and>
              lower ! 3 = Fin (1 / 10) \<and> upper ! 3 = Fin 5) \<and>
           (model_choice self = ''Kd'' \<longrightarrow>
              fit_attempt cf self cs (map np_log10 cs) (map Fin fs) =
                store_fit (\<lambda>v. v) ''Kd Model''
                  (cf (Kd_model_at (self_c_target self)) (map Fin cs) (map Fin fs) p0 (lower, upper)) \<and>
              length p0 = 3 \<and>
              lower ! 2 = Fin (1 / 10 ^ 12) \<and> upper ! 2 = Fin (1 / 10 ^ 2)) \<and>
           (model_choice self = ''Dose-Response'' \<longrightarrow>
              fit_attempt cf self cs (map np_log10 cs) (map Fin fs) =
                store_fit pow10 ''Dose-Response Model''
                  (cf Dose_response_curve (map np_log10 cs) (map Fin fs) p0 (lower, upper)) \<and>
              length p0 = 4 \<and>
              lower ! 2 = Fin (Min (log 10 ` set cs) - 2) \<and>
              upper ! 2 = Fin (Max (log 10 ` set cs) + 2) \<and>
              lower ! 3 = Fin (- 5) \<and> upper ! 3 = Fin 5)"
proof -
  define mn where "mn = Min (set fs)"
  define mx where "mx = Max (set fs)"
  define seed where "seed = seed_fnorm (Fin mn) (Fin mx)"
  define ls where "ls = map (log 10) cs"
  from assms have fne: "fs \<noteq> []" and cne: "cs \<noteq> []"
    by auto
  then have lne: "ls \<noteq> []"
    by (simp add: ls_def)
  from fne have le: "mn \<le> mx"
    unfolding mn_def mx_def by (simp add: Min_le_iff)
  from fne have "mn \<in> set fs" "mx \<in> set fs"
    unfolding mn_def mx_def by simp_all
  with assms(4) have dmn: "is_double mn \<or> \<bar>mn\<bar> \<le> 2 ^ 46" and dmx: "is_double mx \<or> \<bar>mx\<bar> \<le> 2 ^ 46"
    by blast+
  note sb = seed_fnorm_finite [OF dmn dmx le, folded seed_def]
  have logs: "map np_log10 cs = map Fin ls"
    unfolding ls_def by (rule map_np_log10_Fin) (rule assms(3))
  have sl: "set ls = log 10 ` set cs"
    by (simp add: ls_def)
  have mins: "np_min (map Fin fs) = Inr (Fin mn)" "np_max (map Fin fs) = Inr (Fin mx)"
    using fne by (simp_all add: np_min_Fin np_max_Fin mn_def mx_def)
  note mb = median_between [OF lne]
  consider (hill) "model_choice self = ''Hill''" | (kd) "model_choice self = ''Kd''"
    | (other) "model_choice self \<noteq> ''Hill''" "model_choice self \<noteq> ''Kd''"
    by blast
  then show ?thesis
  proof cases
    case hill
    let ?p0 = "[p0_bottom_avg seed, p0_top_avg seed, Fin (median ls), Fin 1]"
    let ?lo = "[bounds_lower_fnorm_avg seed ! 0, bounds_lower_fnorm_avg seed ! 1,
                 Fin (Min (set ls) - 2), Fin (1 / 10)]"
    let ?hi = "[bounds_upper_fnorm_avg seed ! 0, bounds_upper_fnorm_avg seed ! 1,
                 Fin (Max (set ls) + 2), Fin 5]"
    have w: "within_bounds ?p0 ?lo ?hi"
      using sb(5-8) mb by (simp add: within_bounds_def)
    have f: "fit_attempt cf self cs (map np_log10 cs) (map Fin fs) =
                store_fit pow10 ''Hill Model''
                  (cf Binding_curve (map np_log10 cs) (map Fin fs) ?p0 (?lo, ?hi))"
      unfolding logs
      by (simp add: fit_attempt_def mins hill seed_def [symmetric] hill_setup_Fin [OF lne])
    show ?thesis
      unfolding mn_def [symmetric] mx_def [symmetric] sl [symmetric]
      apply (rule exI [of _ ?p0], rule exI [of _ ?lo], rule exI [of _ ?hi])
      using w f sb(1,2,9,10,11) hill by (simp add: sb(3) sb(4))
  next
    case kd
    let ?p0 = "[p0_bottom_avg seed, p0_top_avg seed,
             Fin (max (1 / 10 ^ 9) (min (median cs) (min (self_c_target self) (1 / 10 ^ 6))))]"
    let ?lo = "[bounds_lower_fnorm_avg seed ! 0, bounds_lower_fnorm_avg seed ! 1, Fin (1 / 10 ^ 12)]"
    let ?hi = "[bounds_upper_fnorm_avg seed ! 0, bounds_upper_fnorm_avg seed ! 1, Fin (1 / 10 ^ 2)]"
    have g: "(1 :: real) / 10 ^ 12 \<le> max (1 / 10 ^ 9) (min (median cs) (min (self_c_target self) (1 / 10 ^ 6)))"
      "max (1 / 10 ^ 9) (min (median cs) (min (self_c_target self) (1 / 10 ^ 6))) \<le> (1 :: real) / 10 ^ 2"
      by (simp_all add: le_max_iff_disj min_le_iff_disj)
    have w: "within_bounds ?p0 ?lo ?hi"
      using sb(5-8) g by (simp add: within_bounds_def del: max.bounded_iff min.bounded_iff)
    have f: "fit_attempt cf self cs (map np_log10 cs) (map Fin fs) =
                store_fit (\<lambda>v. v) ''Kd Model''
                  (cf (Kd_model_at (self_c_target self)) (map Fin cs) (map Fin fs) ?p0 (?lo, ?hi))"
      by (simp add: fit_attempt_def mins kd seed_def [symmetric] kd_setup_Fin [OF cne])
    show ?thesis
      unfolding mn_def [symmetric] mx_def [symmetric]
      apply (rule exI [of _ ?p0], rule exI [of _ ?lo], rule exI [of _ ?hi])
      using w f sb(1,2,9,10,11) kd by (simp add: sb(3) sb(4))
  next
    case other
    let ?p0 = "[p0_bottom_avg seed, p0_top_avg seed, Fin (median ls), Fin 1]"
    let ?lo = "[bounds_lower_fnorm_avg seed ! 0, bounds_lower_fnorm_avg seed ! 1,
                 Fin (Min (set ls) - 2), Fin (- 5)]"
    let ?hi = "[bounds_upper_fnorm_avg seed ! 0, bounds_upper_fnorm_avg seed ! 1,
                 Fin (Max (set ls) + 2), Fin 5]"
    have w: "within_bounds ?p0 ?lo ?hi"
      using sb(5-8) mb by (simp add: within_bounds_def)
    have f: "model_choice self = ''Dose-Response'' \<longrightarrow>
              fit_attempt cf self cs (map np_log10 cs) (map Fin fs) =
                store_fit pow10 ''Dose-Response Model''
                  (cf Dose_response_curve (map np_log10 cs) (map Fin fs) ?p0 (?lo, ?hi))"
      unfolding logs
      by (simp add: fit_attempt_def mins seed_def [symmetric] dr_setup_Fin [OF lne])
    show ?thesis
      unfolding mn_def [symmetric] mx_def [symmetric] sl [symmetric]
      apply (rule exI [of _ ?p0], rule exI [of _ ?lo], rule exI [of _ ?hi])
      using w f sb(1,2,9,10,11) other by (simp add: sb(3) sb(4))
  qed
qed

theorem seeds_within_bounds_witness:
  "3 \<le> length [1, 1, 1 :: real] \<and>
   length [1 / 10 ^ 7, 1 / 10 ^ 6, 1 / 10 ^ 5 :: real] = length [1, 1, 1 :: real] \<and>
   list_all (\<lambda>c. 0 < c) [1 / 10 ^ 7, 1 / 10 ^ 6, 1 / 10 ^ 5 :: real] \<and>
   list_all is_double [1, 1, 1] \<and>
   \<bar>Max (set [1, 1, 1 :: real])\<bar> \<le> 2 ^ 46 \<and>
   model_choice (initial_analyzer\<lparr>model_choice := ''Kd''\<rparr>) = ''Kd'' \<and>
   (\<exists>p0 lower upper.
      within_bounds p0 lower upper \<and> flt (p0 ! 0) (p0 ! 1) \<and>
      p0 ! 0 = Fin 1 \<and> p0 ! 1 = fl_add (Fin 1) (round_to_double (1 / 100)) \<and>
      lower ! 0 = Fin 0 \<and> upper ! 0 = Fin 3 \<and>
      lower ! 2 = Fin (1 / 10 ^ 12) \<and> upper ! 2 = Fin (1 / 10 ^ 2) \<and>
      fit_attempt failing_fit (initial_analyzer\<lparr>model_choice := ''Kd''\<rparr>)
        [1 / 10 ^ 7, 1 / 10 ^ 6, 1 / 10 ^ 5]
        (map np_log10 [1 / 10 ^ 7, 1 / 10 ^ 6, 1 / 10 ^ 5]) (map Fin [1, 1, 1])
      = store_fit (\<lambda>v. v) ''Kd Model''
          (failing_fit (Kd_model_at (self_c_target (initial_analyzer\<lparr>model_choice := ''Kd''\<rparr>)))
             (map Fin [1 / 10 ^ 7, 1 / 10 ^ 6, 1 / 10 ^ 5]) (map Fin [1, 1, 1]) p0 (lower, upper))) \<and>
   model_choice (initial_analyzer\<lparr>model_choice := ''Hill''\<rparr>) = ''Hill'' \<and>
   (\<exists>p0 lower upper.
      within_bounds p0 lower upper \<and> flt (p0 ! 0) (p0 ! 1) \<and>
      lower ! 3 = Fin (1 / 10) \<and> upper ! 3 = Fin 5 \<and>
      fit_attempt failing_fit (initial_analyzer\<lparr>model_choice := ''Hill''\<rparr>)
        [1 / 10 ^ 7, 1 / 10 ^ 6, 1 / 10 ^ 5]
        (map np_log10 [1 / 10 ^ 7, 1 / 10 ^ 6, 1 / 10 ^ 5]) (map Fin [1, 1, 1])
      = store_fit pow10 ''Hill Model''
          (failing_fit Binding_curve (map np_log10 [1 / 10 ^ 7, 1 / 10 ^ 6, 1 / 10 ^ 5])
             (map Fin [1, 1, 1]) p0 (lower, upper))) \<and>
   model_choice initial_analyzer = ''Dose-Response'' \<and>
   (\<exists>p0 lower upper.
      within_bounds p0 lower upper \<and> flt (p0 ! 0) (p0 ! 1) \<and>
      lower ! 3 = Fin (- 5) \<and> upper ! 3 = Fin 5 \<and>
      fit_attempt failing_fit initial_analyzer
        [1 / 10 ^ 7, 1 / 10 ^ 6, 1 / 10 ^ 5]
        (map np_log10 [1 / 10 ^ 7, 1 / 10 ^ 6, 1 / 10 ^ 5]) (map Fin [1, 1, 1])
      = store_fit pow10 ''Dose-Response Model''
          (failing_fit Dose_response_curve (map np_log10 [1 / 10 ^ 7, 1 / 10 ^ 6, 1 / 10 ^ 5])
             (map Fin [1, 1, 1]) p0 (lower, upper)))"
proof -
  let ?cs = "[1 / 10 ^ 7, 1 / 10 ^ 6, 1 / 10 ^ 5] :: real list"
  let ?fs = "[1, 1, 1] :: real list"
  let ?kd = "initial_analyzer\<lparr>model_choice := ''Kd''\<rparr>"
  let ?hill = "initial_analyzer\<lparr>model_choice := ''Hill''\<rparr>"
  have h1: "3 \<le> length ?fs" and h2: "length ?cs = length ?fs" and h3: "\<forall>c\<in>set ?cs. 0 < c"
    and h4: "\<forall>f\<in>set ?fs. is_double f \<or> \<bar>f\<bar> \<le> 2 ^ 46"
    by simp_all
  have k: "model_choice ?kd = ''Kd''" and h: "model_choice ?hill = ''Hill''"
    and d: "model_choice initial_analyzer = ''Dose-Response''"
    by (simp_all add: initial_analyzer_def)
  have mm: "Min (set ?fs) = 1" "Max (set ?fs) = 1"
    by simp_all
  have small: "\<bar>Max (set ?fs)\<bar> \<le> 2 ^ 46"
    by simp
  have "round_to_double (1 / 2) = Fin (1 / 2)" "round_to_double (3 / 2) = Fin (3 / 2)"
    using is_double_dyadic [of 1 1] is_double_dyadic [of 3 1] by (simp_all add: is_double_def)
  then have m: "py_min (Fin 0) (round_to_double (Min (set ?fs) - 1 / 2)) = Fin 0"
    "py_max (Fin 3) (round_to_double (Max (set ?fs) + 1 / 2)) = Fin 3"
    by (simp_all add: py_min_def py_max_def flt_def)
  from seeds_within_bounds [OF h1 h2 h3 h4, of ?kd failing_fit] k small
  have a: "\<exists>p0 lower upper.
      within_bounds p0 lower upper \<and> flt (p0 ! 0) (p0 ! 1) \<and>
      p0 ! 0 = Fin 1 \<and> p0 ! 1 = fl_add (Fin 1) (round_to_double (1 / 100)) \<and>
      lower ! 0 = Fin 0 \<and> upper ! 0 = Fin 3 \<and>
      lower ! 2 = Fin (1 / 10 ^ 12) \<and> upper ! 2 = Fin (1 / 10 ^ 2) \<and>
      fit_attempt failing_fit ?kd ?cs (map np_log10 ?cs) (map Fin ?fs)
      = store_fit (\<lambda>v. v) ''Kd Model''
          (failing_fit (Kd_model_at (self_c_target ?kd)) (map Fin ?cs) (map Fin ?fs) p0 (lower, upper))"
    unfolding m unfolding mm by (elim exE conjE) (intro exI conjI; simp)
  from seeds_within_bounds [OF h1 h2 h3 h4, of ?hill failing_fit] h small
  have b: "\<exists>p0 lower upper.
      within_bounds p0 lower upper \<and> flt (p0 ! 0) (p0 ! 1) \<and>
      lower ! 3 = Fin (1 / 10) \<and> upper ! 3 = Fin 5 \<and>
      fit_attempt failing_fit ?hill ?cs (map np_log10 ?cs) (map Fin ?fs)
      = store_fit pow10 ''Hill Model''
          (failing_fit Binding_curve (map np_log10 ?cs) (map Fin ?fs) p0 (lower, upper))"
    by blast
  from seeds_within_bounds [OF h1 h2 h3 h4, of initial_analyzer failing_fit] d small
  have c: "\<exists>p0 lower upper.
      within_bounds p0 lower upper \<and> flt (p0 ! 0) (p0 ! 1) \<and>
      lower ! 3 = Fin (- 5) \<and> upper ! 3 = Fin 5 \<and>
      fit_attempt failing_fit initial_analyzer ?cs (map np_log10 ?cs) (map Fin ?fs)
      = store_fit pow10 ''Dose-Response Model''
          (failing_fit Dose_response_curve (map np_log10 ?cs) (map Fin ?fs) p0 (lower, upper))"
    by blast
  have "list_all (\<lambda>c. 0 < c) ?cs" "list_all is_double ?fs"
    by simp_all
  with a b c show ?thesis
    using h1 h2 k h d small by blast
qed

lemma round_above_2_57: "round_to_double (2 ^ 57 + 1 / 2) = Fin (2 ^ 57)"
proof -
  have a: "2 powr real_of_int 57 \<le> \<bar>2 ^ 57 + 1 / 2 :: real\<bar>"
    and b: "\<bar>2 ^ 57 + 1 / 2 :: real\<bar> < 2 powr (real_of_int 57 + 1)"
    by simp_all
  have q: "(2::real) powr (real_of_int 57 - 52) = 32"
    by simp
  have r: "round_half_even ((2 ^ 57 + 1 / 2) / 32) = 2 ^ 52"
    by (simp add: round_half_even_def)
  from round_to_double_eval [OF a b] show ?thesis
    unfolding q r by simp
qed

lemma round_below_2_57: "round_to_double (2 ^ 57 - 1 / 2) = Fin (2 ^ 57)"
proof -
  have a: "2 powr real_of_int 56 \<le> \<bar>2 ^ 57 - 1 / 2 :: real\<bar>"
    and b: "\<bar>2 ^ 57 - 1 / 2 :: real\<bar> < 2 powr (real_of_int 56 + 1)"
    by simp_all
  have q: "(2::real) powr (real_of_int 56 - 52) = 16"
    by simp
  have r: "round_half_even ((2 ^ 57 - 1 / 2) / 16) = 2 ^ 53"
    by (simp add: round_half_even_def)
  from round_to_double_eval [OF a b] show ?thesis
    unfolding q r by simp
qed

lemma is_double_2_57: "is_double (2 ^ 57)"
  using is_double_pow2 [of 57] by simp

lemma nudge_absorbed: "fl_add (Fin (2 ^ 57)) (round_to_double (1 / 100)) = Fin (2 ^ 57)"
proof -
  obtain c where c: "round_to_double (1 / 100) = Fin c" "5 / 512 \<le> c" "c \<le> 1 / 64"
    by (rule round_hundredth)
  have "fle (Fin (2 ^ 57)) (round_to_double (2 ^ 57 + c))"
    using is_double_2_57 c(2) by (intro round_to_double_ge) simp_all
  moreover have "fle (round_to_double (2 ^ 57 + c)) (round_to_double (2 ^ 57 + 1 / 2))"
    using c(3) by (intro round_to_double_mono) simp
  ultimately have "round_to_double (2 ^ 57 + c) = Fin (2 ^ 57)"
    unfolding round_above_2_57 by (rule fle_antisym [symmetric])
  then show ?thesis
    by (simp add: c(1) fl_Fin)
qed

lemma seed_fnorm_2_57:
  "seed_fnorm (Fin (2 ^ 57)) (Fin (2 ^ 57)) =
     \<lparr>p0_bottom_avg = Fin (2 ^ 57), p0_top_avg = Fin (2 ^ 57),
      bounds_lower_fnorm_avg = [Fin 0, Fin 0],
      bounds_upper_fnorm_avg = [Fin (2 ^ 57), Fin (2 ^ 57)]\<rparr>"
  using nudge_absorbed round_above_2_57 round_below_2_57
  by (simp add: seed_fnorm_def Let_def flt_def feq_def fl_Fin py_min_def py_max_def
        np_clip_def np_maximum_def np_minimum_def)

lemma seed_fnorm_nan:
  "seed_fnorm NaN NaN =
     \<lparr>p0_bottom_avg = NaN, p0_top_avg = NaN,
      bounds_lower_fnorm_avg = [Fin 0, Fin 0], bounds_upper_fnorm_avg = [Fin 3, Fin 3]\<rparr>"
  by (simp add: seed_fnorm_def Let_def flt_def feq_def fl_add_def fl_sub_def fsub_def rounded_def
        py_min_def py_max_def np_clip_def np_maximum_def np_minimum_def)

lemma kd_setup_example:
  "kd_setup seed [1 / 10 ^ 7, 1 / 10 ^ 6, 1 / 10 ^ 5] (1 / 10 ^ 6) =
     ([p0_bottom_avg seed, p0_top_avg seed, Fin (1 / 10 ^ 6)],
      [bounds_lower_fnorm_avg seed ! 0, bounds_lower_fnorm_avg seed ! 1, Fin (1 / 10 ^ 12)],
      [bounds_upper_fnorm_avg seed ! 0, bounds_upper_fnorm_avg seed ! 1, Fin (1 / 10 ^ 2)])"
  by (simp add: kd_setup_def np_median_def np_sort_def Let_def py_min_def py_max_def flt_def)

text \<open>
  Means that are not finite reach the fit: the Fnorm values \<open>inf\<close> and \<open>-inf\<close> at one
  concentration have the mean \<open>nan\<close>, and the fitter is then called with the seeds
  \<open>nan\<close>, which are not within the bounds 0 and 3. With three means of \<open>2^57\<close> the
  nudge of 0.01 and the margin of 0.5 are absorbed by the rounding: the fitter is called
  with a bottom that equals the top and the upper bound.
\<close>

theorem seeds_counterexample:
  "map Fnorm_mean (grouped_data [(1 / 10 ^ 7, PInf), (1 / 10 ^ 7, NInf), (1 / 10 ^ 6, Fin 1),
                                  (1 / 10 ^ 5, Fin 1)]) = [NaN, Fin 1, Fin 1] \<and>
   fit_attempt echo_fit (initial_analyzer\<lparr>model_choice := ''Kd''\<rparr>)
     [1 / 10 ^ 7, 1 / 10 ^ 6, 1 / 10 ^ 5] (map np_log10 [1 / 10 ^ 7, 1 / 10 ^ 6, 1 / 10 ^ 5])
     [NaN, Fin 1, Fin 1]
   = Inr (Some (Fin (1 / 10 ^ 6), ''Kd Model'',
                [NaN, NaN, Fin (1 / 10 ^ 6)] @ [Fin 0, Fin 0, Fin (1 / 10 ^ 12)]
                @ [Fin 3, Fin 3, Fin (1 / 10 ^ 2)])) \<and>
   \<not> within_bounds [NaN, NaN, Fin (1 / 10 ^ 6)] [Fin 0, Fin 0, Fin (1 / 10 ^ 12)]
        [Fin 3, Fin 3, Fin (1 / 10 ^ 2)] \<and>
   is_double (2 ^ 57) \<and>
   fit_attempt echo_fit (initial_analyzer\<lparr>model_choice := ''Kd''\<rparr>)
     [1 / 10 ^ 7, 1 / 10 ^ 6, 1 / 10 ^ 5] (map np_log10 [1 / 10 ^ 7, 1 / 10 ^ 6, 1 / 10 ^ 5])
     [Fin (2 ^ 57), Fin (2 ^ 57), Fin (2 ^ 57)]
   = Inr (Some (Fin (1 / 10 ^ 6), ''Kd Model'',
                [Fin (2 ^ 57), Fin (2 ^ 57), Fin (1 / 10 ^ 6)] @ [Fin 0, Fin 0, Fin (1 / 10 ^ 12)]
                @ [Fin (2 ^ 57), Fin (2 ^ 57), Fin (1 / 10 ^ 2)])) \<and>
   \<not> flt (Fin (2 ^ 57)) (Fin (2 ^ 57))"
proof -
  let ?cs = "[1 / 10 ^ 7, 1 / 10 ^ 6, 1 / 10 ^ 5] :: real list"
  let ?kd = "initial_analyzer\<lparr>model_choice := ''Kd''\<rparr>"
  have g: "map Fnorm_mean (grouped_data [(1 / 10 ^ 7, PInf), (1 / 10 ^ 7, NInf), (1 / 10 ^ 6, Fin 1),
                                  (1 / 10 ^ 5, Fin 1)]) = [NaN, Fin 1, Fin 1]"
    by (simp add: grouped_data_def group_mean_def fsum_def Let_def)
  have t: "self_c_target ?kd = 1 / 10 ^ 6" and k: "model_choice ?kd = ''Kd''"
    by (simp_all add: initial_analyzer_def)
  have a: "fit_attempt echo_fit ?kd ?cs (map np_log10 ?cs) [NaN, Fin 1, Fin 1]
   = Inr (Some (Fin (1 / 10 ^ 6), ''Kd Model'',
                [NaN, NaN, Fin (1 / 10 ^ 6)] @ [Fin 0, Fin 0, Fin (1 / 10 ^ 12)]
                @ [Fin 3, Fin 3, Fin (1 / 10 ^ 2)]))"
    unfolding fit_attempt_def k t
    using kd_setup_example
    by (simp add: np_min_def np_max_def np_minimum_def np_maximum_def seed_fnorm_nan
          store_fit_def echo_fit_def popt_at_def)
  have b: "\<not> within_bounds [NaN, NaN, Fin (1 / 10 ^ 6)] [Fin 0, Fin 0, Fin (1 / 10 ^ 12)]
        [Fin 3, Fin 3, Fin (1 / 10 ^ 2)]"
    by (simp add: within_bounds_def)
  have c: "fit_attempt echo_fit ?kd ?cs (map np_log10 ?cs) [Fin (2 ^ 57), Fin (2 ^ 57), Fin (2 ^ 57)]
   = Inr (Some (Fin (1 / 10 ^ 6), ''Kd Model'',
                [Fin (2 ^ 57), Fin (2 ^ 57), Fin (1 / 10 ^ 6)] @ [Fin 0, Fin 0, Fin (1 / 10 ^ 12)]
                @ [Fin (2 ^ 57), Fin (2 ^ 57), Fin (1 / 10 ^ 2)]))"
    unfolding fit_attempt_def k t
    using seed_fnorm_2_57 kd_setup_example
    by (simp add: np_min_def np_max_def np_minimum_def np_maximum_def
          store_fit_def echo_fit_def popt_at_def)
  have d: "\<not> flt (Fin (2 ^ 57)) (Fin (2 ^ 57))"
    by (simp add: flt_def)
  from g a b is_double_2_57 c d show ?thesis
    by blast
qed

text \<open>
  C7, as the code has it. For the Kd model and a dataset with at least one
  concentration, the initial guess of the Kd parameter is the least of the median
  concentration, the target concentration and 1e-6, raised to 1e-9 when it is below,
  and the bounds of the Kd parameter are 1e-12 and 1e-2; these are the vectors the
  fitter is called with.
\<close>

theorem kd_initial_guess_and_bounds:
  assumes "avg_actual_concs \<noteq> []"
  shows "fst (kd_setup seed avg_actual_concs target) ! 2 =
           Fin (max (1 / 10 ^ 9) (min (median avg_actual_concs) (min target (1 / 10 ^ 6)))) \<and>
         fst (snd (kd_setup seed avg_actual_concs target)) ! 2 = Fin (1 / 10 ^ 12) \<and>
         snd (snd (kd_setup seed avg_actual_concs target)) ! 2 = Fin (1 / 10 ^ 2) \<and>
         (model_choice self = ''Kd'' \<and> avg_fnorms \<noteq> [] \<longrightarrow>
            (\<exists>seed'. fit_attempt cf self avg_actual_concs avg_log_concs avg_fnorms =
               store_fit (\<lambda>v. v) ''Kd Model''
                 (cf (Kd_model_at (self_c_target self)) (map Fin avg_actual_concs) avg_fnorms
                    (fst (kd_setup seed' avg_actual_concs (self_c_target self)))
                    (snd (kd_setup seed' avg_actual_concs (self_c_target self))))))"
proof -
  have a: "fst (kd_setup seed avg_actual_concs target) ! 2 =
           Fin (max (1 / 10 ^ 9) (min (median avg_actual_concs) (min target (1 / 10 ^ 6)))) \<and>
         fst (snd (kd_setup seed avg_actual_concs target)) ! 2 = Fin (1 / 10 ^ 12) \<and>
         snd (snd (kd_setup seed avg_actual_concs target)) ! 2 = Fin (1 / 10 ^ 2)"
    by (simp add: kd_setup_Fin [OF assms])
  have b: "\<exists>seed'. fit_attempt cf self avg_actual_concs avg_log_concs avg_fnorms =
               store_fit (\<lambda>v. v) ''Kd Model''
                 (cf (Kd_model_at (self_c_target self)) (map Fin avg_actual_concs) avg_fnorms
                    (fst (kd_setup seed' avg_actual_concs (self_c_target self)))
                    (snd (kd_setup seed' avg_actual_concs (self_c_target self))))"
    if "model_choice self = ''Kd''" "avg_fnorms \<noteq> []"
  proof -
    from that(2) obtain y ys where y: "avg_fnorms = y # ys"
      by (cases avg_fnorms) auto
    show ?thesis
      by (rule exI [of _ "seed_fnorm (foldl np_minimum y ys) (foldl np_maximum y ys)"])
         (simp add: fit_attempt_def y np_min_def np_max_def that(1) Let_def split: prod.splits)
  qed
  from a b show ?thesis
    by blast
qed

theorem kd_initial_guess_and_bounds_witness:
  "[1 / 10 ^ 11, 1 / 10 ^ 10, 1 / 10 ^ 9 :: real] \<noteq> [] \<and>
   fst (kd_setup (seed_fnorm (Fin 1) (Fin 2)) [1 / 10 ^ 11, 1 / 10 ^ 10, 1 / 10 ^ 9] (1 / 10 ^ 6)) ! 2
     = Fin (max (1 / 10 ^ 9) (min (median [1 / 10 ^ 11, 1 / 10 ^ 10, 1 / 10 ^ 9]) (min (1 / 10 ^ 6) (1 / 10 ^ 6)))) \<and>
   fst (snd (kd_setup (seed_fnorm (Fin 1) (Fin 2)) [1 / 10 ^ 11, 1 / 10 ^ 10, 1 / 10 ^ 9] (1 / 10 ^ 6))) ! 2
     = Fin (1 / 10 ^ 12) \<and>
   snd (snd (kd_setup (seed_fnorm (Fin 1) (Fin 2)) [1 / 10 ^ 11, 1 / 10 ^ 10, 1 / 10 ^ 9] (1 / 10 ^ 6))) ! 2
     = Fin (1 / 10 ^ 2) \<and>
   model_choice (initial_analyzer\<lparr>model_choice := ''Kd''\<rparr>) = ''Kd'' \<and>
   [Fin 1, Fin (3 / 2), Fin 2] \<noteq> [] \<and>
   (\<exists>seed'. fit_attempt failing_fit (initial_analyzer\<lparr>model_choice := ''Kd''\<rparr>)
       [1 / 10 ^ 11, 1 / 10 ^ 10, 1 / 10 ^ 9] (map np_log10 [1 / 10 ^ 11, 1 / 10 ^ 10, 1 / 10 ^ 9])
       [Fin 1, Fin (3 / 2), Fin 2] =
     store_fit (\<lambda>v. v) ''Kd Model''
       (failing_fit (Kd_model_at (self_c_target (initial_analyzer\<lparr>model_choice := ''Kd''\<rparr>)))
          (map Fin [1 / 10 ^ 11, 1 / 10 ^ 10, 1 / 10 ^ 9]) [Fin 1, Fin (3 / 2), Fin 2]
          (fst (kd_setup seed' [1 / 10 ^ 11, 1 / 10 ^ 10, 1 / 10 ^ 9]
                  (self_c_target (initial_analyzer\<lparr>model_choice := ''Kd''\<rparr>))))
          (snd (kd_setup seed' [1 / 10 ^ 11, 1 / 10 ^ 10, 1 / 10 ^ 9]
                  (self_c_target (initial_analyzer\<lparr>model_choice := ''Kd''\<rparr>))))))"
proof -
  let ?cs = "[1 / 10 ^ 11, 1 / 10 ^ 10, 1 / 10 ^ 9] :: real list"
  let ?self = "initial_analyzer\<lparr>model_choice := ''Kd''\<rparr>"
  have h: "?cs \<noteq> []"
    by simp
  have k: "model_choice ?self = ''Kd''" and f: "[Fin 1, Fin (3 / 2), Fin 2] \<noteq> []"
    by simp_all
  from kd_initial_guess_and_bounds
         [OF h, of "seed_fnorm (Fin 1) (Fin 2)" "1 / 10 ^ 6" ?self "[Fin 1, Fin (3 / 2), Fin 2]"
            failing_fit "map np_log10 ?cs"] h k f
  show ?thesis
    by blast
qed

text \<open>
  With the concentrations 1e-11, 1e-10, 1e-9 and the target concentration 1e-6 the
  guess is 1e-9, neither the least of median, target and 1e-6 (which is 1e-10) nor the
  median clamped between the target and 1e-6 (which is 1e-6).
\<close>

theorem kd_initial_guess_counterexample:
  "fst (kd_setup (seed_fnorm (Fin 1) (Fin 2)) [1 / 10 ^ 11, 1 / 10 ^ 10, 1 / 10 ^ 9] (1 / 10 ^ 6)) ! 2
     = Fin (1 / 10 ^ 9) \<and>
   median [1 / 10 ^ 11, 1 / 10 ^ 10, 1 / 10 ^ 9] = 1 / 10 ^ 10 \<and>
   spec_kd_guess_least (1 / 10 ^ 10) (1 / 10 ^ 6) = 1 / 10 ^ 10 \<and>
   spec_kd_guess_clamp (1 / 10 ^ 10) (1 / 10 ^ 6) = 1 / 10 ^ 6"
proof -
  have m: "median [1 / 10 ^ 11, 1 / 10 ^ 10, 1 / 10 ^ 9] = 1 / 10 ^ 10"
    by (simp add: median_def)
  have "kd_setup (seed_fnorm (Fin 1) (Fin 2)) [1 / 10 ^ 11, 1 / 10 ^ 10, 1 / 10 ^ 9] (1 / 10 ^ 6)
          = ([p0_bottom_avg (seed_fnorm (Fin 1) (Fin 2)), p0_top_avg (seed_fnorm (Fin 1) (Fin 2)),
              Fin (1 / 10 ^ 9)],
             [bounds_lower_fnorm_avg (seed_fnorm (Fin 1) (Fin 2)) ! 0,
              bounds_lower_fnorm_avg (seed_fnorm (Fin 1) (Fin 2)) ! 1, Fin (1 / 10 ^ 12)],
             [bounds_upper_fnorm_avg (seed_fnorm (Fin 1) (Fin 2)) ! 0,
              bounds_upper_fnorm_avg (seed_fnorm (Fin 1) (Fin 2)) ! 1, Fin (1 / 10 ^ 2)])"
    by (simp add: kd_setup_def np_median_def np_sort_def Let_def py_min_def py_max_def flt_def)
  then have a: "fst (kd_setup (seed_fnorm (Fin 1) (Fin 2)) [1 / 10 ^ 11, 1 / 10 ^ 10, 1 / 10 ^ 9] (1 / 10 ^ 6)) ! 2
     = Fin (1 / 10 ^ 9)"
    by simp
  have s: "spec_kd_guess_least (1 / 10 ^ 10) (1 / 10 ^ 6) = 1 / 10 ^ 10"
    "spec_kd_guess_clamp (1 / 10 ^ 10) (1 / 10 ^ 6) = 1 / 10 ^ 6"
    by (simp_all add: spec_kd_guess_least_def spec_kd_guess_clamp_def)
  from a m s show ?thesis
    by blast
qed

end
